theory Spec2Isabelle
  imports Main "HOL-Library.AList"
begin

section \<open>Salmon run statistics: the extractor and the writer of \<open>stat.py\<close>\<close>

text \<open>
  The program reads a chart script out of a web page, cuts it into per-year fragments with
  regular expressions and string splitting, builds a dictionary of date and count lists,
  and writes each non-empty series to a text file.

  Modelling conventions.
  \<^item> A Python \<open>str\<close> is a \<open>string\<close>; a character is one of the 256 code points below
    \<open>0x100\<close>.
  \<^item> A Python \<open>int\<close> is an \<open>int\<close>; \<open>int(s)\<close> has no limit on the number of digits.
  \<^item> An exception is a value of \<open>py_exception\<close>. A function that prints to the error
    stream or to the output stream returns what it printed together with its outcome, so
    that what was printed before an uncaught exception is kept.
  \<^item> \<open>re.search\<close> is a backtracking matcher over the constructs the four patterns of the
    program use: a literal character, one character of a class, and a capturing group
    holding a greedy repetition of a class.
  \<^item> \<open>datetime.date\<close> is the constructor of CPython: an argument that does not fit a C
    \<open>int\<close> raises \<open>OverflowError\<close> while the arguments are converted, before the ranges
    are checked; an argument out of its range raises \<open>ValueError\<close>.
\<close>

subsection \<open>Exceptions\<close>

datatype py_exception =
  ValueError | OverflowError | AttributeError | FileNotFoundError | IsADirectoryError

subsection \<open>Regular expressions\<close>

datatype cls = Digit | AnyChar

text \<open>
  \<open>Chr c\<close> is the literal \<open>c\<close>; \<open>One k\<close> is one character of the class \<open>k\<close>
  (the pattern \<open>.\<close> is \<open>One AnyChar\<close>); \<open>Group k lo\<close> is a capturing group around a
  greedy repetition of the class \<open>k\<close>, at least \<open>lo\<close> times (\<open>([0-9]+)\<close> is
  \<open>Group Digit 1\<close>, \<open>(.*)\<close> is \<open>Group AnyChar 0\<close>).
\<close>

datatype atom = Chr char | One cls | Group cls nat

definition is_digit :: "char \<Rightarrow> bool" where
  "is_digit c = (c \<in> set ''0123456789'')"

text \<open>Without the flag \<open>DOTALL\<close>, \<open>.\<close> matches every character but the newline.\<close>

fun in_cls :: "cls \<Rightarrow> char \<Rightarrow> bool" where
  "in_cls Digit c = is_digit c"
| "in_cls AnyChar c = (c \<noteq> CHR 0x0A)"

text \<open>
  The greedy repetition takes one more character of the class whenever it can and asks the
  rest of the pattern (\<open>cont\<close>) only when that fails: the longest repetition that lets the
  rest match wins. \<open>acc\<close> holds the characters taken so far, last first.
\<close>

fun greedy ::
  "cls \<Rightarrow> (string \<Rightarrow> string list option) \<Rightarrow> nat \<Rightarrow> string \<Rightarrow> string \<Rightarrow> string list option"
where
  "greedy k cont lo acc [] =
     (if lo = 0 then map_option ((#) (rev acc)) (cont []) else None)"
| "greedy k cont lo acc (x # xs) =
     (let stop = (if lo = 0 then map_option ((#) (rev acc)) (cont (x # xs)) else None)
      in if in_cls k x
         then (case greedy k cont (lo - 1) (x # acc) xs of
                 Some gs \<Rightarrow> Some gs
               | None \<Rightarrow> stop)
         else stop)"

text \<open>A match of the pattern at the start of the string: the captured groups, in order.\<close>

primrec match_here :: "atom list \<Rightarrow> string \<Rightarrow> string list option" where
  "match_here [] s = Some []"
| "match_here (a # ps) s =
     (case a of
        Chr c \<Rightarrow>
          (case s of [] \<Rightarrow> None | x # xs \<Rightarrow> if x = c then match_here ps xs else None)
      | One k \<Rightarrow>
          (case s of [] \<Rightarrow> None | x # xs \<Rightarrow> if in_cls k x then match_here ps xs else None)
      | Group k lo \<Rightarrow> greedy k (match_here ps) lo [] s)"

text \<open>\<open>re.search\<close>: the match at the leftmost position that has one.\<close>

fun search :: "atom list \<Rightarrow> string \<Rightarrow> string list option" where
  "search ps [] = match_here ps []"
| "search ps (x # xs) =
     (case match_here ps (x # xs) of Some gs \<Rightarrow> Some gs | None \<Rightarrow> search ps xs)"

definition lit :: "string \<Rightarrow> atom list" where
  "lit s = map Chr s"

text \<open>\<^verbatim>\<open>name:'([0-9]+)',\<close>\<close>

definition name_pattern :: "atom list" where
  "name_pattern =
     lit ''name:'' @ [Chr (CHR 0x27), Group Digit 1, Chr (CHR 0x27), Chr (CHR '','')]"

text \<open>\<^verbatim>\<open>data:\[(.*)\]\<close>\<close>

definition data_pattern :: "atom list" where
  "data_pattern = lit ''data:['' @ [Group AnyChar 0, Chr (CHR '']'')]"

text \<open>\<^verbatim>\<open>series:\[(.*)\]\<close>\<close>

definition series_pattern :: "atom list" where
  "series_pattern = lit ''series:['' @ [Group AnyChar 0, Chr (CHR '']'')]"

text \<open>\<^verbatim>\<open>Date.UTC\(([0-9]+),([0-9]+),([0-9]+)\),([0-9]+)\<close>: the dot after \<open>Date\<close> is
  not escaped.\<close>

definition point_pattern :: "atom list" where
  "point_pattern =
     lit ''Date'' @ [One AnyChar] @ lit ''UTC('' @
     [Group Digit 1, Chr (CHR '',''), Group Digit 1, Chr (CHR '',''), Group Digit 1] @
     lit ''),'' @ [Group Digit 1]"

subsection \<open>Strings\<close>

text \<open>\<open>s.replace(c, '')\<close> for a single character \<open>c\<close>.\<close>

definition remove_char :: "char \<Rightarrow> string \<Rightarrow> string" where
  "remove_char c s = filter (\<lambda>x. x \<noteq> c) s"

text \<open>
  \<open>s.split(sep)\<close>: the pieces between the occurrences of \<open>sep\<close>, found from the left
  without overlap. The program calls it with the separators \<open>],\<close> and \<open>},\<close> only
  (Python raises \<open>ValueError\<close> on an empty separator).
\<close>

function split :: "string \<Rightarrow> string \<Rightarrow> string list" where
  "split sep [] = [[]]"
| "split sep (x # xs) =
     (if sep \<noteq> [] \<and> take (length sep) (x # xs) = sep
      then [] # split sep (drop (length sep) (x # xs))
      else (case split sep xs of p # ps \<Rightarrow> (x # p) # ps | [] \<Rightarrow> [[x]]))"
  by pat_completeness auto
termination
  by (relation "measure (\<lambda>(sep, s). length s)") (auto simp: neq_Nil_conv)

subsection \<open>Integers from strings\<close>

text \<open>
  \<open>int(s)\<close>: white space around, an optional sign, then digits, where a single
  underscore may stand between two digits; anything else raises \<open>ValueError\<close>.
\<close>

definition is_space :: "char \<Rightarrow> bool" where
  "is_space c =
     (c \<in> set [CHR 0x09, CHR 0x0A, CHR 0x0B, CHR 0x0C, CHR 0x0D, CHR 0x20, CHR 0x85, CHR 0xA0])"

fun digits_ok :: "string \<Rightarrow> bool" where
  "digits_ok [] = False"
| "digits_ok [c] = is_digit c"
| "digits_ok (c # d # r) =
     (is_digit c \<and> (if d = CHR ''_'' then r \<noteq> [] \<and> digits_ok r else digits_ok (d # r)))"

definition digit_val :: "char \<Rightarrow> int" where
  "digit_val c = int (of_char c) - 48"

definition decimal :: "string \<Rightarrow> int" where
  "decimal s = foldl (\<lambda>a c. 10 * a + digit_val c) 0 s"

definition py_int :: "string \<Rightarrow> py_exception + int" where
  "py_int s =
     (let t = dropWhile is_space s;
          neg = (t \<noteq> [] \<and> hd t = CHR ''-'');
          u = (if t \<noteq> [] \<and> (hd t = CHR ''-'' \<or> hd t = CHR ''+'') then tl t else t);
          body = rev (dropWhile is_space (rev u))
      in if digits_ok body
         then Inr ((if neg then - 1 else 1) * decimal (remove_char (CHR ''_'') body))
         else Inl ValueError)"

subsection \<open>Calendar dates\<close>

datatype date = Date (date_year: int) (date_month: int) (date_day: int)

definition is_leap :: "int \<Rightarrow> bool" where
  "is_leap y = (y mod 4 = 0 \<and> (y mod 400 = 0 \<or> y mod 100 \<noteq> 0))"

definition days_in_month :: "int \<Rightarrow> int \<Rightarrow> int" where
  "days_in_month y m =
     (if m = 2 \<and> is_leap y then 29
      else [31, 28, 31, 30, 31, 30, 31, 31, 30, 31, 30, 31] ! nat (m - 1))"

definition valid_date :: "int \<Rightarrow> int \<Rightarrow> int \<Rightarrow> bool" where
  "valid_date y m d =
     (1 \<le> y \<and> y \<le> 9999 \<and> 1 \<le> m \<and> m \<le> 12 \<and> 1 \<le> d \<and> d \<le> days_in_month y m)"

definition fits_c_int :: "int \<Rightarrow> bool" where
  "fits_c_int x = (- (2 ^ 31) \<le> x \<and> x < 2 ^ 31)"

text \<open>\<open>datetime.date(y, m, d)\<close>\<close>

definition date_new :: "int \<Rightarrow> int \<Rightarrow> int \<Rightarrow> py_exception + date" where
  "date_new y m d =
     (if fits_c_int y \<and> fits_c_int m \<and> fits_c_int d
      then (if valid_date y m d then Inr (Date y m d) else Inl ValueError)
      else Inl OverflowError)"

subsection \<open>The extractor: \<open>parse_year\<close> and \<open>parse_data\<close>\<close>

record series =
  dates :: "date list"
  counts :: "int list"

definition parse_year :: "string \<Rightarrow> string option" where
  "parse_year string =
     (case search name_pattern string of Some gs \<Rightarrow> Some (gs ! 0) | None \<Rightarrow> None)"

text \<open>
  The body of the \<open>try\<close> statement: \<open>datetime.date(int(year), month, day)\<close>. The
  arguments are evaluated from the left, so \<open>int(year)\<close> raises first.
\<close>

definition year_date :: "string \<Rightarrow> int \<Rightarrow> int \<Rightarrow> py_exception + date" where
  "year_date year m d = (case py_int year of Inl e \<Rightarrow> Inl e | Inr y \<Rightarrow> date_new y m d)"

text \<open>
  The loop over \<open>raw_elements\<close>. \<open>data\<close> is the dictionary of the two lists and \<open>err\<close>
  the tracebacks printed so far, one entry for each \<open>traceback.print_exc()\<close>. The three
  conversions of the matched groups stand before the \<open>try\<close>; the handler catches
  \<open>ValueError\<close> only, every other exception leaves the function.
\<close>

fun parse_elements ::
  "string \<Rightarrow> string list \<Rightarrow> series \<Rightarrow> py_exception list
     \<Rightarrow> py_exception list \<times> (py_exception + series)"
where
  "parse_elements year [] data err = (err, Inr data)"
| "parse_elements year (element # rest) data err =
     (case search point_pattern element of
        None \<Rightarrow> parse_elements year rest data err
      | Some gs \<Rightarrow>
          (case py_int (gs ! 1) of Inl e \<Rightarrow> (err, Inl e) | Inr m \<Rightarrow>
          (case py_int (gs ! 2) of Inl e \<Rightarrow> (err, Inl e) | Inr day \<Rightarrow>
          (case py_int (gs ! 3) of Inl e \<Rightarrow> (err, Inl e) | Inr count \<Rightarrow>
          (case year_date year (m + 1) day of
             Inr d \<Rightarrow>
               parse_elements year rest
                 (data\<lparr>dates := dates data @ [d], counts := counts data @ [count]\<rparr>) err
           | Inl e \<Rightarrow>
               if e = ValueError then parse_elements year rest data (err @ [ValueError])
               else (err, Inl e))))))"

definition raw_elements :: "string \<Rightarrow> string list" where
  "raw_elements body = split ''],'' (remove_char (CHR ''['') body)"

definition parse_data :: "string \<Rightarrow> string \<Rightarrow> py_exception list \<times> (py_exception + series)" where
  "parse_data string year =
     (case search data_pattern string of
        None \<Rightarrow> ([], Inr \<lparr>dates = [], counts = []\<rparr>)
      | Some gs \<Rightarrow> parse_elements year (raw_elements (gs ! 0)) \<lparr>dates = [], counts = []\<rparr> [])"

subsection \<open>The extractor: the loops of \<open>get_salmon_statistics\<close>\<close>

text \<open>
  A dictionary is an association list in insertion order; \<open>d[k] = v\<close> is
  \<open>AList.update k v d\<close>, which replaces the value of a key that is present, in place,
  and appends a new key at the end, and \<open>map_of d k\<close> looks a key up.
\<close>

type_synonym year_dict = "(string \<times> series) list"

definition single_line :: "string \<Rightarrow> string" where
  "single_line script =
     remove_char (CHR '' '')
       (remove_char (CHR 0x09) (remove_char (CHR 0x0D) (remove_char (CHR 0x0A) script)))"

definition raw_groups :: "string \<Rightarrow> string list" where
  "raw_groups raw = split ''},'' (remove_char (CHR ''{'') raw)"

text \<open>
  The loop over \<open>raw_groups\<close>. \<open>if year\<close> holds for a string that is neither \<open>None\<close>
  nor empty.
\<close>

fun parse_groups ::
  "string list \<Rightarrow> year_dict \<Rightarrow> py_exception list
     \<Rightarrow> py_exception list \<times> (py_exception + year_dict)"
where
  "parse_groups [] years err = (err, Inr years)"
| "parse_groups (grp # rest) years err =
     (case parse_year grp of
        None \<Rightarrow> parse_groups rest years err
      | Some year \<Rightarrow>
          if year = [] then parse_groups rest years err
          else (case parse_data grp year of
                  (e, Inl x) \<Rightarrow> (err @ e, Inl x)
                | (e, Inr data) \<Rightarrow>
                    parse_groups rest (AList.update year data years) (err @ e)))"

text \<open>
  The body of the loop over the rivers, from the text of the chart script on:
  \<open>re.search(...)\<close> returns \<open>None\<close> when the pattern has no match, and \<open>.group(1)\<close>
  on \<open>None\<close> raises \<open>AttributeError\<close>.
\<close>

definition river_statistics ::
  "string \<Rightarrow> py_exception list \<times> (py_exception + year_dict)" where
  "river_statistics script =
     (case search series_pattern (single_line script) of
        None \<Rightarrow> ([], Inl AttributeError)
      | Some gs \<Rightarrow> parse_groups (raw_groups (gs ! 0)) [] [])"

definition RIVERS :: "string list" where
  "RIVERS = [''byskealven'', ''kalixalven'', ''linaalven'', ''pitealven-fallfors'',
     ''pitealven-sikfors'', ''ricklean'', ''ranealven'', ''tornealven'', ''aby-alv'',
     ''angesan'']"

text \<open>
  The HTTP request and the HTML parser are not modelled: \<open>fetch river\<close> stands for the
  text of the chart script of the page of \<open>river\<close>, or for the exception raised on the
  way to it.
\<close>

fun get_rivers ::
  "(string \<Rightarrow> py_exception + string) \<Rightarrow> string list \<Rightarrow> (string \<times> year_dict) list
     \<Rightarrow> py_exception list \<Rightarrow> py_exception list \<times> (py_exception + (string \<times> year_dict) list)"
where
  "get_rivers fetch [] statistics err = (err, Inr statistics)"
| "get_rivers fetch (river # rest) statistics err =
     (case fetch river of
        Inl x \<Rightarrow> (err, Inl x)
      | Inr script \<Rightarrow>
          (case river_statistics script of
             (e, Inl x) \<Rightarrow> (err @ e, Inl x)
           | (e, Inr years) \<Rightarrow>
               get_rivers fetch rest (AList.update river years statistics) (err @ e)))"

definition get_salmon_statistics ::
  "(string \<Rightarrow> py_exception + string)
     \<Rightarrow> py_exception list \<times> (py_exception + (string \<times> year_dict) list)" where
  "get_salmon_statistics fetch = get_rivers fetch RIVERS [] []"

subsection \<open>The writer: \<open>store_salmon_statistics\<close>\<close>

definition digit_char :: "nat \<Rightarrow> char" where
  "digit_char n = ''0123456789'' ! n"

fun str_nat :: "nat \<Rightarrow> string" where
  "str_nat n = (if n < 10 then [digit_char n] else str_nat (n div 10) @ [digit_char (n mod 10)])"

declare str_nat.simps [simp del]

text \<open>\<open>str(i)\<close> of an integer.\<close>

definition str_int :: "int \<Rightarrow> string" where
  "str_int i = (if i < 0 then CHR ''-'' # str_nat (nat (- i)) else str_nat (nat i))"

definition zfill :: "nat \<Rightarrow> string \<Rightarrow> string" where
  "zfill w s = replicate (w - length s) (CHR ''0'') @ s"

text \<open>
  \<open>str(d)\<close> of a date is its ISO format, \<^verbatim>\<open>"%04d-%02d-%02d" % (year, month, day)\<close>;
  the three fields of a date are positive.
\<close>

definition str_date :: "date \<Rightarrow> string" where
  "str_date d =
     zfill 4 (str_int (date_year d)) @ ''-'' @ zfill 2 (str_int (date_month d)) @ ''-'' @
     zfill 2 (str_int (date_day d))"

text \<open>\<open>sep.join(l)\<close>\<close>

fun join :: "string \<Rightarrow> string list \<Rightarrow> string" where
  "join sep [] = []"
| "join sep [x] = x"
| "join sep (x # y # r) = x @ sep @ join sep (y # r)"

definition list_to_string :: "('a \<Rightarrow> string) \<Rightarrow> 'a list \<Rightarrow> string" where
  "list_to_string str lst = join '','' (map str lst)"

text \<open>
  \<open>os.path.dirname\<close> of a POSIX path: the part up to the last slash, without the
  slashes at its end unless it consists of slashes only.
\<close>

definition dirname :: "string \<Rightarrow> string" where
  "dirname p =
     (let i = length p - length (takeWhile (\<lambda>c. c \<noteq> CHR ''/'') (rev p));
          head = take i p
      in if head \<noteq> [] \<and> head \<noteq> replicate (length head) (CHR ''/'')
         then rev (dropWhile (\<lambda>c. c = CHR ''/'') (rev head))
         else head)"

text \<open>The part of a POSIX path after its last slash.\<close>

definition basename :: "string \<Rightarrow> string" where
  "basename p = rev (takeWhile (\<lambda>c. c \<noteq> CHR ''/'') (rev p))"

text \<open>
  The file system is a map from paths to the contents of the files, and a path is the
  string the program passes. Whether a directory can be made and a file opened is for the
  operating system to say: \<open>makedirs_error os name fs\<close> and \<open>open_error os name fs\<close>
  are the exceptions, if any, that it raises for \<open>os.makedirs(name, exist_ok=True)\<close> and
  for \<open>open(name, 'w+')\<close> in the file system \<open>fs\<close>. Two outcomes depend on the name
  alone and are fixed here: \<open>os.makedirs('', exist_ok=True)\<close> raises
  \<open>FileNotFoundError\<close>, which is what a file name with no directory part leads to, and
  opening a name that ends in a slash, in \<open>.\<close> or in \<open>..\<close> raises
  \<open>IsADirectoryError\<close>, since the name is the one of a directory once \<open>os.makedirs\<close>
  has returned. Opening with mode \<open>w+\<close> creates the file or empties it, and each
  \<open>write\<close> appends. The writer returns the file system it leaves, which is the one it
  found when it raises, and the exception it raised, if any.
\<close>

type_synonym file_system = "string \<rightharpoonup> string"

record os_env =
  makedirs_error :: "string \<Rightarrow> file_system \<Rightarrow> py_exception option"
  open_error :: "string \<Rightarrow> file_system \<Rightarrow> py_exception option"

definition os_makedirs :: "os_env \<Rightarrow> string \<Rightarrow> file_system \<Rightarrow> py_exception option" where
  "os_makedirs os name fs =
     (if name = [] then Some FileNotFoundError else makedirs_error os name fs)"

definition os_open :: "os_env \<Rightarrow> string \<Rightarrow> file_system \<Rightarrow> py_exception option" where
  "os_open os name fs =
     (if name = [] then Some FileNotFoundError
      else if basename name = [] \<or> basename name = ''.'' \<or> basename name = ''..''
      then Some IsADirectoryError
      else open_error os name fs)"

definition store_salmon_statistics ::
  "os_env \<Rightarrow> series \<Rightarrow> string \<Rightarrow> file_system \<Rightarrow> file_system \<times> py_exception option" where
  "store_salmon_statistics os statistics file_name fs =
     (case os_makedirs os (dirname file_name) fs of
        Some x \<Rightarrow> (fs, Some x)
      | None \<Rightarrow>
          (case os_open os file_name fs of
             Some x \<Rightarrow> (fs, Some x)
           | None \<Rightarrow>
               (let opened = [];
                    w1 = opened @ list_to_string str_date (dates statistics);
                    w2 = w1 @ [CHR 0x0A];
                    w3 = w2 @ list_to_string str_int (counts statistics);
                    w4 = w3 @ [CHR 0x0A]
                in (fs(file_name \<mapsto> w4), None))))"

subsection \<open>The entry point: \<open>main\<close>\<close>

definition warning :: "string \<Rightarrow> string \<Rightarrow> string" where
  "warning river year =
     ''WARNING: No statistics available for river '' @ river @ '', year '' @ year"

text \<open>
  The command line and \<open>pathlib\<close> are not modelled: \<open>path name\<close> stands for
  \<open>str(args.output / name)\<close>. \<open>out\<close> holds the lines printed so far. The loops return
  the file system and the output they reached, and the exception that ended them, if any.
\<close>

fun main_years ::
  "os_env \<Rightarrow> (string \<Rightarrow> string) \<Rightarrow> string \<Rightarrow> year_dict \<Rightarrow> file_system \<Rightarrow> string list
     \<Rightarrow> (file_system \<times> string list) \<times> py_exception option"
where
  "main_years os path river [] fs out = ((fs, out), None)"
| "main_years os path river ((year, data) # rest) fs out =
     (if dates data \<noteq> [] \<and> counts data \<noteq> []
      then (case store_salmon_statistics os data (path (river @ year @ ''.txt'')) fs of
              (fs', Some x) \<Rightarrow> ((fs', out), Some x)
            | (fs', None) \<Rightarrow> main_years os path river rest fs' out)
      else main_years os path river rest fs (out @ [warning river year]))"

fun main_rivers ::
  "os_env \<Rightarrow> (string \<Rightarrow> string) \<Rightarrow> (string \<times> year_dict) list \<Rightarrow> file_system \<Rightarrow> string list
     \<Rightarrow> (file_system \<times> string list) \<times> py_exception option"
where
  "main_rivers os path [] fs out = ((fs, out), None)"
| "main_rivers os path ((river, years) # rest) fs out =
     (case main_years os path river years fs out of
        ((fs', out'), Some x) \<Rightarrow> ((fs', out'), Some x)
      | ((fs', out'), None) \<Rightarrow> main_rivers os path rest fs' out')"

definition main ::
  "(string \<Rightarrow> py_exception + string) \<Rightarrow> os_env \<Rightarrow> (string \<Rightarrow> string) \<Rightarrow> file_system
     \<Rightarrow> py_exception list \<times> (file_system \<times> string list) \<times> py_exception option" where
  "main fetch os path fs =
     (case get_salmon_statistics fetch of
        (err, Inl x) \<Rightarrow> (err, (fs, []), Some x)
      | (err, Inr statistics) \<Rightarrow> (err, main_rivers os path statistics fs []))"

subsection \<open>Notions used to state the properties\<close>

text \<open>The capturing groups of a pattern, in order, each with its class and least length.\<close>

fun group_specs :: "atom list \<Rightarrow> (cls \<times> nat) list" where
  "group_specs [] = []"
| "group_specs (Group k lo # ps) = (k, lo) # group_specs ps"
| "group_specs (a # ps) = group_specs ps"

definition group_ok :: "cls \<times> nat \<Rightarrow> string \<Rightarrow> bool" where
  "group_ok spec g = (snd spec \<le> length g \<and> list_all (in_cls (fst spec)) g)"




text \<open>
  What the loop over the fragments prints for one fragment: the tracebacks of its
  \<open>parse_data\<close>, if it has a year.
\<close>

definition group_traces :: "string \<Rightarrow> py_exception list" where
  "group_traces grp =
     (case parse_year grp of
        None \<Rightarrow> []
      | Some year \<Rightarrow> if year = [] then [] else fst (parse_data grp year))"

text \<open>
  The region of a text \<open>s\<close> for an opening mark: the text between the first occurrence of
  the mark and the last closing bracket of \<open>s\<close>, as the only captured group.
  \<open>after_first\<close> is the text after the first occurrence of the mark, \<open>before_last\<close> the
  text before the last occurrence of a character.
\<close>

fun after_first :: "string \<Rightarrow> string \<Rightarrow> string option" where
  "after_first l [] = (if l = [] then Some [] else None)"
| "after_first l (x # xs) =
     (if take (length l) (x # xs) = l then Some (drop (length l) (x # xs))
      else after_first l xs)"

fun before_last :: "char \<Rightarrow> string \<Rightarrow> string option" where
  "before_last c [] = None"
| "before_last c (x # xs) =
     (case before_last c xs of
        Some g \<Rightarrow> Some (x # g)
      | None \<Rightarrow> if x = c then Some [] else None)"

definition greedy_region :: "string \<Rightarrow> string \<Rightarrow> string list \<Rightarrow> bool" where
  "greedy_region mark s gs =
     (\<exists>pre g post. gs = [g] \<and> s = pre @ mark @ g @ '']'' @ post \<and> CHR '']'' \<notin> set post \<and>
        (\<forall>pre' rest. s = pre' @ mark @ rest \<longrightarrow> length pre \<le> length pre'))"

text \<open>
  The lines of a text, each ended by a newline (a last line may lack it); the text the
  writer puts into a file; the writer called \<open>n\<close> times in a row with the same
  arguments; and the characters of a date or an integer.
\<close>

fun lines_from :: "string \<Rightarrow> string \<Rightarrow> string list" where
  "lines_from cur [] = (if cur = [] then [] else [rev cur])"
| "lines_from cur (x # xs) =
     (if x = CHR 0x0A then rev cur # lines_from [] xs else lines_from (x # cur) xs)"

definition text_lines :: "string \<Rightarrow> string list" where
  "text_lines s = lines_from [] s"

definition file_text :: "series \<Rightarrow> string" where
  "file_text statistics =
     list_to_string str_date (dates statistics) @ [CHR 0x0A] @
     list_to_string str_int (counts statistics) @ [CHR 0x0A]"

fun store_times ::
  "nat \<Rightarrow> os_env \<Rightarrow> series \<Rightarrow> string \<Rightarrow> file_system \<Rightarrow> file_system \<times> py_exception option"
where
  "store_times 0 os statistics file_name fs = (fs, None)"
| "store_times (Suc n) os statistics file_name fs =
     (case store_salmon_statistics os statistics file_name fs of
        (fs', Some x) \<Rightarrow> (fs', Some x)
      | (fs', None) \<Rightarrow> store_times n os statistics file_name fs')"

definition plain :: "char \<Rightarrow> bool" where
  "plain c = (is_digit c \<or> c = CHR ''-'')"

text \<open>
  A series that \<open>main\<close> does not write; the warnings of the series of a river, in order;
  and the paths of the files \<open>main\<close> writes for a river.
\<close>

definition empty_series :: "series \<Rightarrow> bool" where
  "empty_series data = (dates data = [] \<or> counts data = [])"

definition warnings_of :: "string \<Rightarrow> year_dict \<Rightarrow> string list" where
  "warnings_of river years =
     map (\<lambda>(year, data). warning river year) (filter (\<lambda>(year, data). empty_series data) years)"

definition written_paths :: "(string \<Rightarrow> string) \<Rightarrow> string \<Rightarrow> year_dict \<Rightarrow> string set" where
  "written_paths path river years =
     {path (river @ year @ ''.txt'') | year data. (year, data) \<in> set years \<and> \<not> empty_series data}"

section \<open>The matcher\<close>

text \<open>
  What a failed and what a successful greedy repetition say about every length it could
  have taken.
\<close>

lemma greedy_None_all:
  "greedy k cont lo acc s = None \<Longrightarrow> m \<le> length s \<Longrightarrow> lo \<le> m \<Longrightarrow>
     \<forall>c\<in>set (take m s). in_cls k c \<Longrightarrow> cont (drop m s) = None"
proof (induction s arbitrary: lo acc m)
  case Nil
  then show ?case by (auto split: if_splits)
next
  case (Cons x xs)
  show ?case
  proof (cases m)
    case 0
    with Cons.prems show ?thesis by (auto simp: Let_def split: if_splits option.splits)
  next
    case (Suc m')
    with Cons.prems have x: "in_cls k x" by simp
    with Cons.prems have g: "greedy k cont (lo - 1) (x # acc) xs = None"
      by (auto simp: Let_def split: option.splits)
    from Cons.IH[OF g, of m'] Cons.prems Suc show ?thesis by auto
  qed
qed

lemma greedy_SomeD:
  "greedy k cont lo acc s = Some gs \<Longrightarrow>
     \<exists>n gs'. n \<le> length s \<and> lo \<le> n \<and> (\<forall>c\<in>set (take n s). in_cls k c) \<and>
       cont (drop n s) = Some gs' \<and> gs = (rev acc @ take n s) # gs' \<and>
       (\<forall>m. n < m \<longrightarrow> m \<le> length s \<longrightarrow> (\<forall>c\<in>set (take m s). in_cls k c) \<longrightarrow>
            cont (drop m s) = None)"
proof (induction s arbitrary: lo acc gs)
  case Nil
  then show ?case by (auto split: if_splits)
next
  case (Cons x xs)
  show ?case
  proof (cases "in_cls k x \<and> greedy k cont (lo - 1) (x # acc) xs \<noteq> None")
    case True
    then obtain r where r: "greedy k cont (lo - 1) (x # acc) xs = Some r" by auto
    with True Cons.prems have "gs = r" by (simp add: Let_def)
    from Cons.IH[OF r] obtain n gs' where n:
      "n \<le> length xs" "lo - 1 \<le> n" "\<forall>c\<in>set (take n xs). in_cls k c"
      "cont (drop n xs) = Some gs'" "r = (rev (x # acc) @ take n xs) # gs'"
      "\<forall>m. n < m \<longrightarrow> m \<le> length xs \<longrightarrow> (\<forall>c\<in>set (take m xs). in_cls k c) \<longrightarrow>
            cont (drop m xs) = None"
      by blast
    have mx: "\<forall>m. Suc n < m \<longrightarrow> m \<le> length (x # xs) \<longrightarrow>
        (\<forall>c\<in>set (take m (x # xs)). in_cls k c) \<longrightarrow> cont (drop m (x # xs)) = None"
    proof (intro allI impI)
      fix m assume a: "Suc n < m" "m \<le> length (x # xs)" "\<forall>c\<in>set (take m (x # xs)). in_cls k c"
      then obtain m' where m': "m = Suc m'" by (cases m) auto
      with a n(6) show "cont (drop m (x # xs)) = None" by auto
    qed
    show ?thesis
      apply (rule exI[of _ "Suc n"], rule exI[of _ gs'])
      using n True \<open>gs = r\<close> mx by auto
  next
    case False
    with Cons.prems have stop: "lo = 0" "map_option ((#) (rev acc)) (cont (x # xs)) = Some gs"
      by (auto simp: Let_def split: if_splits option.splits)
    then obtain gs' where gs': "cont (x # xs) = Some gs'" "gs = rev acc # gs'" by auto
    have mx: "\<forall>m. 0 < m \<longrightarrow> m \<le> length (x # xs) \<longrightarrow>
        (\<forall>c\<in>set (take m (x # xs)). in_cls k c) \<longrightarrow> cont (drop m (x # xs)) = None"
    proof (intro allI impI)
      fix m assume a: "0 < m" "m \<le> length (x # xs)" "\<forall>c\<in>set (take m (x # xs)). in_cls k c"
      then obtain m' where m': "m = Suc m'" by (cases m) auto
      with a have x: "in_cls k x" by simp
      with False have g: "greedy k cont (lo - 1) (x # acc) xs = None" by simp
      from greedy_None_all[OF g, of m'] a m' stop(1)
      show "cont (drop m (x # xs)) = None" by auto
    qed
    show ?thesis
      apply (rule exI[of _ 0], rule exI[of _ gs'])
      using stop gs' mx by auto
  qed
qed

lemma match_here_groups:
  "match_here ps s = Some gs \<Longrightarrow> list_all2 group_ok (group_specs ps) gs"
proof (induction ps arbitrary: s gs)
  case Nil
  then show ?case by simp
next
  case (Cons a ps)
  show ?case
  proof (cases a)
    case (Chr c)
    with Cons show ?thesis by (auto split: list.splits if_splits)
  next
    case (One k)
    with Cons show ?thesis by (auto split: list.splits if_splits)
  next
    case (Group k lo)
    with Cons.prems have "greedy k (match_here ps) lo [] s = Some gs" by simp
    from greedy_SomeD[OF this] obtain n gs' where
      n: "lo \<le> n" "n \<le> length s" "\<forall>c\<in>set (take n s). in_cls k c"
         "match_here ps (drop n s) = Some gs'" "gs = take n s # gs'"
      by auto
    from Cons.IH[OF n(4)] n Group show ?thesis
      by (auto simp: group_ok_def list_all_iff)
  qed
qed

lemma match_here_lit:
  "match_here (lit l @ ps) s =
     (if take (length l) s = l then match_here ps (drop (length l) s) else None)"
proof (induction l arbitrary: s)
  case Nil
  then show ?case by (simp add: lit_def)
next
  case (Cons c l)
  then show ?case by (cases s) (auto simp: lit_def)
qed

lemma search_SomeD:
  "search ps s = Some gs \<Longrightarrow>
     \<exists>i\<le>length s. match_here ps (drop i s) = Some gs \<and> (\<forall>j<i. match_here ps (drop j s) = None)"
proof (induction s)
  case Nil
  then show ?case by simp
next
  case (Cons x xs)
  show ?case
  proof (cases "match_here ps (x # xs)")
    case (Some r)
    with Cons.prems have "r = gs" by simp
    with Some show ?thesis by (intro exI[of _ 0]) simp
  next
    case None
    with Cons.prems have "search ps xs = Some gs" by simp
    from Cons.IH[OF this] obtain i where i: "i \<le> length xs" "match_here ps (drop i xs) = Some gs"
      "\<forall>j<i. match_here ps (drop j xs) = None" by blast
    have "\<forall>j<Suc i. match_here ps (drop j (x # xs)) = None"
    proof (intro allI impI)
      fix j assume "j < Suc i"
      then show "match_here ps (drop j (x # xs)) = None"
        using None i(3) by (cases j) auto
    qed
    with i show ?thesis by (intro exI[of _ "Suc i"]) simp
  qed
qed

lemma search_None_iff:
  "search ps s = None \<longleftrightarrow> (\<forall>i\<le>length s. match_here ps (drop i s) = None)"
proof (induction s)
  case Nil
  then show ?case by simp
next
  case (Cons x xs)
  have "(\<forall>i\<le>length (x # xs). match_here ps (drop i (x # xs)) = None) \<longleftrightarrow>
        match_here ps (x # xs) = None \<and> (\<forall>i\<le>length xs. match_here ps (drop i xs) = None)"
    (is "?L \<longleftrightarrow> ?R")
  proof
    assume l: ?L
    have "match_here ps (drop 0 (x # xs)) = None" using l by blast
    moreover have "\<forall>i\<le>length xs. match_here ps (drop i xs) = None"
    proof (intro allI impI)
      fix i assume "i \<le> length xs"
      with l have "match_here ps (drop (Suc i) (x # xs)) = None" by (metis Suc_le_mono length_Cons)
      then show "match_here ps (drop i xs) = None" by simp
    qed
    ultimately show ?R by simp
  next
    assume r: ?R
    show ?L
    proof (intro allI impI)
      fix i assume "i \<le> length (x # xs)"
      with r show "match_here ps (drop i (x # xs)) = None" by (cases i) auto
    qed
  qed
  with Cons show ?case by (auto split: option.splits)
qed

lemma search_groups:
  "search ps s = Some gs \<Longrightarrow> list_all2 group_ok (group_specs ps) gs"
  using search_SomeD match_here_groups by blast

lemma in_cls_Digit: "in_cls Digit = is_digit"
  by (rule ext) simp

lemma point_pattern_groups:
  assumes "search point_pattern element = Some gs"
  shows "\<exists>g1 g2 g3 g4. gs = [g1, g2, g3, g4] \<and>
           g1 \<noteq> [] \<and> list_all is_digit g1 \<and> g2 \<noteq> [] \<and> list_all is_digit g2 \<and>
           g3 \<noteq> [] \<and> list_all is_digit g3 \<and> g4 \<noteq> [] \<and> list_all is_digit g4"
proof -
  have "group_specs point_pattern = [(Digit, 1), (Digit, 1), (Digit, 1), (Digit, 1)]"
    by (simp add: point_pattern_def lit_def)
  with search_groups[OF assms]
  have "list_all2 group_ok [(Digit, 1), (Digit, 1), (Digit, 1), (Digit, 1)] gs" by simp
  then show ?thesis
    by (clarsimp simp: list_all2_Cons1 group_ok_def in_cls_Digit) auto
qed

lemma name_pattern_groups:
  assumes "search name_pattern s = Some gs"
  shows "\<exists>g. gs = [g] \<and> g \<noteq> [] \<and> list_all is_digit g"
proof -
  have "group_specs name_pattern = [(Digit, 1)]"
    by (simp add: name_pattern_def lit_def)
  with search_groups[OF assms] have "list_all2 group_ok [(Digit, 1)] gs" by simp
  then show ?thesis
    by (clarsimp simp: list_all2_Cons1 group_ok_def in_cls_Digit)
qed

section \<open>Integers of digit strings\<close>

lemma is_digit_not_space: "is_digit c \<Longrightarrow> \<not> is_space c"
  by (auto simp: is_digit_def is_space_def)

lemma is_digit_not_sign: "is_digit c \<Longrightarrow> c \<noteq> CHR ''-'' \<and> c \<noteq> CHR ''+'' \<and> c \<noteq> CHR ''_''"
  by (auto simp: is_digit_def)

lemma digits_ok_digits: "s \<noteq> [] \<Longrightarrow> list_all is_digit s \<Longrightarrow> digits_ok s"
  by (induction s rule: digits_ok.induct) (auto dest: is_digit_not_sign)

lemma remove_underscore_digits: "list_all is_digit s \<Longrightarrow> remove_char (CHR ''_'') s = s"
  by (induction s) (auto simp: remove_char_def dest: is_digit_not_sign)

lemma py_int_digits:
  assumes "s \<noteq> []" "list_all is_digit s"
  shows "py_int s = Inr (decimal s)"
proof -
  from assms obtain c r where s: "s = c # r" by (cases s) auto
  with assms have c: "is_digit c" by simp
  have t: "dropWhile is_space s = s" using s c is_digit_not_space by simp
  from assms have "is_digit (last s)" by (metis last_in_set list_all_iff)
  then have "dropWhile is_space (rev s) = rev s"
    using assms(1) is_digit_not_space by (cases "rev s") (auto simp: last_rev[symmetric] hd_rev)
  then have b: "rev (dropWhile is_space (rev s)) = s" by simp
  have hd: "hd s \<noteq> CHR ''-''" "hd s \<noteq> CHR ''+''" using s c is_digit_not_sign by auto
  show ?thesis
    unfolding py_int_def Let_def t
    using hd b digits_ok_digits[OF assms] remove_underscore_digits[OF assms(2)] by simp
qed

section \<open>The loop of \<open>parse_data\<close>\<close>

lemma py_int_Inl: "py_int s = Inl e \<Longrightarrow> e = ValueError"
  by (auto simp: py_int_def Let_def split: if_splits)



lemma valid_date_fits: "valid_date y m d \<Longrightarrow> fits_c_int y \<and> fits_c_int m \<and> fits_c_int d"
proof -
  assume v: "valid_date y m d"
  then have m: "1 \<le> m" "m \<le> 12" by (auto simp: valid_date_def)
  then have "m \<in> {1,2,3,4,5,6,7,8,9,10,11,12}" by simp arith
  then have "days_in_month y m \<le> 31"
    by (auto simp: days_in_month_def)
  with v show ?thesis by (auto simp: valid_date_def fits_c_int_def)
qed




text \<open>
  The loop returns a series whenever the numbers of every matched point, and the year, fit
  a C \<open>int\<close>: then \<open>ValueError\<close> is the only exception that can be raised.
\<close>

lemma parse_elements_returns:
  assumes "\<forall>element\<in>set es. \<forall>gs y. search point_pattern element = Some gs \<longrightarrow>
             py_int year = Inr y \<longrightarrow>
             fits_c_int y \<and> fits_c_int (decimal (gs ! 1) + 1) \<and> fits_c_int (decimal (gs ! 2))"
  shows "\<exists>err' data'. parse_elements year es data err = (err', Inr data')"
  using assms
proof (induction es arbitrary: data err)
  case Nil
  then show ?case by simp
next
  case (Cons element rest)
  then have IH: "\<And>data err. \<exists>err' data'. parse_elements year rest data err = (err', Inr data')"
    by simp
  show ?case
  proof (cases "search point_pattern element")
    case None
    with IH show ?thesis by simp
  next
    case (Some gs)
    from point_pattern_groups[OF Some] obtain g1 g2 g3 g4 where gs: "gs = [g1, g2, g3, g4]"
      and d: "g2 \<noteq> []" "list_all is_digit g2" "g3 \<noteq> []" "list_all is_digit g3"
             "g4 \<noteq> []" "list_all is_digit g4" by blast
    have ints: "py_int (gs ! 1) = Inr (decimal g2)" "py_int (gs ! 2) = Inr (decimal g3)"
      "py_int (gs ! 3) = Inr (decimal g4)"
      using gs d py_int_digits by auto
    show ?thesis
    proof (cases "year_date year (decimal g2 + 1) (decimal g3)")
      case (Inr dt)
      with Some ints IH show ?thesis by simp
    next
      case (Inl e)
      have "e = ValueError"
      proof (cases "py_int year")
        case (Inl x)
        with \<open>year_date year (decimal g2 + 1) (decimal g3) = Inl e\<close> py_int_Inl[OF Inl]
        show ?thesis by (simp add: year_date_def)
      next
        case (Inr y)
        with Cons.prems Some gs have "fits_c_int y \<and> fits_c_int (decimal g2 + 1) \<and> fits_c_int (decimal g3)"
          by fastforce
        with Inl Inr show ?thesis by (auto simp: year_date_def date_new_def split: if_splits)
      qed
      with Some ints Inl IH show ?thesis by simp
    qed
  qed
qed

lemma parse_year_digits:
  assumes "parse_year s = Some year"
  shows "year \<noteq> [] \<and> list_all is_digit year"
proof -
  from assms obtain gs where gs: "search name_pattern s = Some gs" "year = gs ! 0"
    by (auto simp: parse_year_def split: option.splits)
  from name_pattern_groups[OF gs(1)] gs(2) show ?thesis by auto
qed


section \<open>The year of a date\<close>




section \<open>Dates and counts stay aligned\<close>



section \<open>A point that is not a calendar date\<close>

text \<open>
  C3 fails on the program. A point whose day, month or year does not fit a C \<open>int\<close>
  makes \<open>datetime.date\<close> raise \<open>OverflowError\<close>, which the handler for \<open>ValueError\<close>
  does not catch: \<open>parse_data\<close> is left by the exception and the two valid points beside
  the invalid one are lost with it.
\<close>

theorem overflow_point_aborts:
  "parse_data
     ''data:[[Date.UTC(2021,0,15),42],[Date.UTC(2021,0,2147483648),7],[Date.UTC(2021,0,16),9]]''
     ''2021''
   = ([], Inl OverflowError)"
  by code_simp

text \<open>
  What the handler does cover: a point whose numbers fit a C \<open>int\<close> and are not a
  calendar date is dropped with one traceback and the loop goes on, as for the 30th of
  February in the example of the specification.
\<close>

lemma invalid_point_dropped:
  assumes "search point_pattern element = Some gs"
    and "py_int year = Inr y"
    and "fits_c_int y" "fits_c_int (decimal (gs ! 1) + 1)" "fits_c_int (decimal (gs ! 2))"
    and "\<not> valid_date y (decimal (gs ! 1) + 1) (decimal (gs ! 2))"
  shows "parse_elements year (element # rest) data err =
         parse_elements year rest data (err @ [ValueError])"
proof -
  from point_pattern_groups[OF assms(1)] obtain g1 g2 g3 g4 where gs: "gs = [g1, g2, g3, g4]"
    and d: "g2 \<noteq> []" "list_all is_digit g2" "g3 \<noteq> []" "list_all is_digit g3"
           "g4 \<noteq> []" "list_all is_digit g4" by blast
  have ints: "py_int (gs ! 1) = Inr (decimal g2)" "py_int (gs ! 2) = Inr (decimal g3)"
    "py_int (gs ! 3) = Inr (decimal g4)"
    using gs d py_int_digits by auto
  have "year_date year (decimal g2 + 1) (decimal g3) = Inl ValueError"
    using assms gs by (simp add: year_date_def date_new_def)
  with assms(1) ints show ?thesis by simp
qed

lemma february_30_dropped:
  "parse_data ''data:[[Date.UTC(2021,0,15),42],[Date.UTC(2021,1,30),5],[Date.UTC(2021,0,16),7]]''
       ''2021''
     = ([ValueError], Inr \<lparr>dates = [Date 2021 1 15, Date 2021 1 16], counts = [42, 7]\<rparr>)"
  by code_simp

section \<open>The example of the specification\<close>

text \<open>
  C4. On the fragment
  \<^verbatim>\<open>name:'2021',data:[[Date.UTC(2021,0,15),42],[Date.UTC(2021,0,16),7]]\<close>
  the year parser returns the string \<open>2021\<close>, and the data parser returns the dates
  2021-01-15 and 2021-01-16 and the counts 42 and 7, in this order, with nothing printed:
  the month 0 of the script is the month 1 of the calendar.
\<close>

theorem example_fragment:
  "parse_year ''name:'2021',data:[[Date.UTC(2021,0,15),42],[Date.UTC(2021,0,16),7]]''
     = Some ''2021'' \<and>
   parse_data ''name:'2021',data:[[Date.UTC(2021,0,15),42],[Date.UTC(2021,0,16),7]]'' ''2021''
     = ([], Inr \<lparr>dates = [Date 2021 1 15, Date 2021 1 16], counts = [42, 7]\<rparr>)"
  by code_simp

section \<open>The loop over the fragments\<close>

lemma parse_groups_append:
  "parse_groups (gs1 @ gs2) years err =
     (case parse_groups gs1 years err of
        (e, Inl x) \<Rightarrow> (e, Inl x)
      | (e, Inr ys) \<Rightarrow> parse_groups gs2 ys e)"
  by (induction gs1 arbitrary: years err) (auto split: option.splits prod.splits sum.splits)

lemma parse_groups_skip:
  assumes "parse_year g = None"
  shows "parse_groups (gs1 @ g # gs2) years err = parse_groups (gs1 @ gs2) years err"
  using assms by (simp add: parse_groups_append split: prod.splits sum.splits)

lemma parse_groups_keys:
  "parse_groups gs years err = (err', Inr years') \<Longrightarrow>
     fst ` set years' = fst ` set years \<union> {y. \<exists>g\<in>set gs. parse_year g = Some y}"
proof (induction gs arbitrary: years err)
  case Nil
  then show ?case by simp
next
  case (Cons g gs)
  show ?case
  proof (cases "parse_year g")
    case None
    with Cons show ?thesis by auto
  next
    case (Some y)
    from parse_year_digits[OF Some] have ne: "y \<noteq> []" by simp
    obtain e r where pd: "parse_data g y = (e, r)" by (cases "parse_data g y")
    with Cons.prems Some ne obtain d where d: "r = Inr d"
      "parse_groups gs (AList.update y d years) (err @ e) = (err', Inr years')"
      by (cases r) auto
    from Cons.IH[OF d(2)] Some show ?thesis
      by (auto simp: AList.dom_update)
  qed
qed

lemma parse_groups_distinct:
  "parse_groups gs years err = (err', Inr years') \<Longrightarrow> distinct (map fst years) \<Longrightarrow>
     distinct (map fst years')"
proof (induction gs arbitrary: years err)
  case Nil
  then show ?case by simp
next
  case (Cons g gs)
  show ?case
  proof (cases "parse_year g")
    case None
    with Cons show ?thesis by auto
  next
    case (Some y)
    from parse_year_digits[OF Some] have ne: "y \<noteq> []" by simp
    obtain e r where pd: "parse_data g y = (e, r)" by (cases "parse_data g y")
    with Cons.prems Some ne obtain d where d: "r = Inr d"
      "parse_groups gs (AList.update y d years) (err @ e) = (err', Inr years')"
      by (cases r) auto
    from Cons.IH[OF d(2)] Cons.prems(2) show ?thesis by (simp add: distinct_update)
  qed
qed

lemma parse_groups_untouched:
  "parse_groups gs years err = (err', Inr years') \<Longrightarrow> \<forall>g\<in>set gs. parse_year g \<noteq> Some y \<Longrightarrow>
     map_of years' y = map_of years y"
proof (induction gs arbitrary: years err)
  case Nil
  then show ?case by simp
next
  case (Cons g gs)
  show ?case
  proof (cases "parse_year g")
    case None
    with Cons show ?thesis by auto
  next
    case (Some y')
    from parse_year_digits[OF Some] have ne: "y' \<noteq> []" by simp
    from Cons.prems(2) Some have neq: "y' \<noteq> y" by auto
    obtain e r where pd: "parse_data g y' = (e, r)" by (cases "parse_data g y'")
    with Cons.prems Some ne obtain d where d: "r = Inr d"
      "parse_groups gs (AList.update y' d years) (err @ e) = (err', Inr years')"
      by (cases r) auto
    from Cons.IH[OF d(2)] Cons.prems(2) neq show ?thesis by (simp add: update_conv')
  qed
qed

lemma parse_groups_traces:
  "parse_groups gs years err = (err', Inr years') \<Longrightarrow>
     err' = err @ concat (map group_traces gs)"
proof (induction gs arbitrary: years err)
  case Nil
  then show ?case by simp
next
  case (Cons g gs)
  show ?case
  proof (cases "parse_year g")
    case None
    with Cons show ?thesis by (auto simp: group_traces_def)
  next
    case (Some y)
    from parse_year_digits[OF Some] have ne: "y \<noteq> []" by simp
    obtain e r where pd: "parse_data g y = (e, r)" by (cases "parse_data g y")
    with Cons.prems Some ne obtain d where d: "r = Inr d"
      "parse_groups gs (AList.update y d years) (err @ e) = (err', Inr years')"
      by (cases r) auto
    from Cons.IH[OF d(2)] Some ne pd show ?thesis by (simp add: group_traces_def)
  qed
qed

lemma one_entry:
  assumes "distinct (map fst al)" "map_of al k = Some v"
  shows "filter (\<lambda>kv. fst kv = k) al = [(k, v)]"
  using assms
proof (induction al)
  case Nil
  then show ?case by simp
next
  case (Cons a al)
  show ?case
  proof (cases "fst a = k")
    case True
    with Cons.prems have "\<forall>kv\<in>set al. fst kv \<noteq> k" by (force simp: image_iff)
    then have "filter (\<lambda>kv. fst kv = k) al = []" by (simp add: filter_empty_conv)
    with True Cons.prems show ?thesis by (cases a) auto
  next
    case False
    with Cons show ?thesis by auto
  qed
qed

text \<open>
  C5. A fragment in which the name pattern has no match leaves no trace in the dictionary
  of its river: the loop over the fragments returns what it returns without this
  fragment, and the keys of the dictionary are the years of the other fragments, so no
  key, empty or other, stands for it.
\<close>

theorem nameless_fragment_no_entry:
  assumes "parse_year g = None"
    and "parse_groups (gs1 @ g # gs2) [] [] = (err, Inr years)"
  shows "parse_groups (gs1 @ gs2) [] [] = (err, Inr years) \<and>
         fst ` set years = {y. \<exists>g'\<in>set (gs1 @ gs2). parse_year g' = Some y}"
proof -
  from assms have r: "parse_groups (gs1 @ gs2) [] [] = (err, Inr years)"
    by (simp add: parse_groups_skip)
  from parse_groups_keys[OF r] r show ?thesis by simp
qed

theorem nameless_fragment_no_entry_witness:
  "parse_year ''data:[[Date.UTC(2021,5,1),4]]'' = None \<and>
   parse_groups
     ([''name:'2020',data:[[Date.UTC(2020,5,1),3]]''] @ ''data:[[Date.UTC(2021,5,1),4]]'' #
      [''name:'2022',data:[[Date.UTC(2022,5,1),5]]}'']) [] []
     = ([], Inr [(''2020'', \<lparr>dates = [Date 2020 6 1], counts = [3]\<rparr>),
                 (''2022'', \<lparr>dates = [Date 2022 6 1], counts = [5]\<rparr>)]) \<and>
   parse_groups
     ([''name:'2020',data:[[Date.UTC(2020,5,1),3]]''] @
      [''name:'2022',data:[[Date.UTC(2022,5,1),5]]}'']) [] []
     = ([], Inr [(''2020'', \<lparr>dates = [Date 2020 6 1], counts = [3]\<rparr>),
                 (''2022'', \<lparr>dates = [Date 2022 6 1], counts = [5]\<rparr>)]) \<and>
   fst ` set [(''2020'', \<lparr>dates = [Date 2020 6 1], counts = [3]\<rparr>),
              (''2022'', \<lparr>dates = [Date 2022 6 1], counts = [5]\<rparr>)]
     = {y. \<exists>g'\<in>set ([''name:'2020',data:[[Date.UTC(2020,5,1),3]]''] @
                        [''name:'2022',data:[[Date.UTC(2022,5,1),5]]}'']).
             parse_year g' = Some y} \<and>
   river_statistics
     ''series: [{name:'2020', data:[[Date.UTC(2020,5,1),3]]}, {data:[[Date.UTC(2021,5,1),4]]}, {name:'2022', data:[[Date.UTC(2022,5,1),5]]}]''
     = ([], Inr [(''2020'', \<lparr>dates = [Date 2020 6 1], counts = [3]\<rparr>),
                 (''2022'', \<lparr>dates = [Date 2022 6 1], counts = [5]\<rparr>)])"
proof -
  have h1: "parse_year ''data:[[Date.UTC(2021,5,1),4]]'' = None"
    by code_simp
  have h2: "parse_groups
     ([''name:'2020',data:[[Date.UTC(2020,5,1),3]]''] @ ''data:[[Date.UTC(2021,5,1),4]]'' #
      [''name:'2022',data:[[Date.UTC(2022,5,1),5]]}'']) [] []
     = ([], Inr [(''2020'', \<lparr>dates = [Date 2020 6 1], counts = [3]\<rparr>),
                 (''2022'', \<lparr>dates = [Date 2022 6 1], counts = [5]\<rparr>)])"
    by code_simp
  have h3: "river_statistics
     ''series: [{name:'2020', data:[[Date.UTC(2020,5,1),3]]}, {data:[[Date.UTC(2021,5,1),4]]}, {name:'2022', data:[[Date.UTC(2022,5,1),5]]}]''
     = ([], Inr [(''2020'', \<lparr>dates = [Date 2020 6 1], counts = [3]\<rparr>),
                 (''2022'', \<lparr>dates = [Date 2022 6 1], counts = [5]\<rparr>)])"
    by code_simp
  note c = nameless_fragment_no_entry[OF h1 h2]
  show ?thesis
    by (rule conjI[OF h1], rule conjI[OF h2], rule conjI[OF conjunct1[OF c]],
        rule conjI[OF conjunct2[OF c]], rule h3)
qed

text \<open>
  C10. When several fragments of a document give the same year, the dictionary of the
  river has one entry for this year, and its series is the one \<open>parse_data\<close> returns for
  the last of these fragments alone; nothing of an earlier fragment is merged into it, and
  nothing is printed but the tracebacks of the calls of \<open>parse_data\<close>.
\<close>

theorem last_fragment_wins:
  assumes "parse_groups (gs1 @ g # gs2) [] [] = (err, Inr years)"
    and "parse_year g = Some y"
    and "\<forall>g'\<in>set gs2. parse_year g' \<noteq> Some y"
  shows "\<exists>e d. parse_data g y = (e, Inr d) \<and>
           filter (\<lambda>kv. fst kv = y) years = [(y, d)] \<and>
           err = concat (map group_traces (gs1 @ g # gs2))"
proof -
  obtain e1 r1 where p1: "parse_groups gs1 [] [] = (e1, r1)" by (cases "parse_groups gs1 [] []")
  with assms(1) obtain ys where r1: "r1 = Inr ys"
    and p2: "parse_groups (g # gs2) ys e1 = (err, Inr years)"
    by (cases r1) (auto simp: parse_groups_append)
  from parse_year_digits[OF assms(2)] have ne: "y \<noteq> []" by simp
  obtain e r where pd: "parse_data g y = (e, r)" by (cases "parse_data g y")
  with p2 assms(2) ne obtain d where d: "r = Inr d"
    and p3: "parse_groups gs2 (AList.update y d ys) (e1 @ e) = (err, Inr years)"
    by (cases r) auto
  from parse_groups_untouched[OF p3 assms(3)] have m: "map_of years y = Some d"
    by (simp add: update_conv')
  from parse_groups_distinct[OF assms(1)] have "distinct (map fst years)" by simp
  from one_entry[OF this m] pd d parse_groups_traces[OF assms(1)] show ?thesis by simp
qed

theorem last_fragment_wins_witness:
  "parse_groups
     ([''name:'2021',data:[[Date.UTC(2021,0,15),42]]''] @
      ''name:'2021',data:[[Date.UTC(2021,0,16),7]]}'' # []) [] []
     = ([], Inr [(''2021'', \<lparr>dates = [Date 2021 1 16], counts = [7]\<rparr>)]) \<and>
   parse_year ''name:'2021',data:[[Date.UTC(2021,0,15),42]]'' = Some ''2021'' \<and>
   parse_year ''name:'2021',data:[[Date.UTC(2021,0,16),7]]}'' = Some ''2021'' \<and>
   parse_data ''name:'2021',data:[[Date.UTC(2021,0,16),7]]}'' ''2021''
     = ([], Inr \<lparr>dates = [Date 2021 1 16], counts = [7]\<rparr>) \<and>
   (\<exists>e d. parse_data ''name:'2021',data:[[Date.UTC(2021,0,16),7]]}'' ''2021'' = (e, Inr d) \<and>
      filter (\<lambda>kv. fst kv = ''2021'')
        [(''2021'', \<lparr>dates = [Date 2021 1 16], counts = [7]\<rparr>)] = [(''2021'', d)] \<and>
      [] = concat (map group_traces
             ([''name:'2021',data:[[Date.UTC(2021,0,15),42]]''] @
              ''name:'2021',data:[[Date.UTC(2021,0,16),7]]}'' # []))) \<and>
   river_statistics
     ''series:[{name:'2021',data:[[Date.UTC(2021,0,15),42]]},{name:'2021',data:[[Date.UTC(2021,0,16),7]]}]''
     = ([], Inr [(''2021'', \<lparr>dates = [Date 2021 1 16], counts = [7]\<rparr>)])"
proof -
  have h1: "parse_groups
     ([''name:'2021',data:[[Date.UTC(2021,0,15),42]]''] @
      ''name:'2021',data:[[Date.UTC(2021,0,16),7]]}'' # []) [] []
     = ([], Inr [(''2021'', \<lparr>dates = [Date 2021 1 16], counts = [7]\<rparr>)])"
    by code_simp
  have h0: "parse_year ''name:'2021',data:[[Date.UTC(2021,0,15),42]]'' = Some ''2021''"
    by code_simp
  have h2: "parse_year ''name:'2021',data:[[Date.UTC(2021,0,16),7]]}'' = Some ''2021''"
    by code_simp
  have h3: "\<forall>g'\<in>set []. parse_year g' \<noteq> Some ''2021''"
    by simp
  have h4: "parse_data ''name:'2021',data:[[Date.UTC(2021,0,16),7]]}'' ''2021''
     = ([], Inr \<lparr>dates = [Date 2021 1 16], counts = [7]\<rparr>)"
    by code_simp
  have h5: "river_statistics
     ''series:[{name:'2021',data:[[Date.UTC(2021,0,15),42]]},{name:'2021',data:[[Date.UTC(2021,0,16),7]]}]''
     = ([], Inr [(''2021'', \<lparr>dates = [Date 2021 1 16], counts = [7]\<rparr>)])"
    by code_simp
  note c = last_fragment_wins[OF h1 h2 h3]
  show ?thesis
    by (rule conjI[OF h1], rule conjI[OF h0], rule conjI[OF h2], rule conjI[OF h4],
        rule conjI[OF c], rule h5)
qed

section \<open>The greedy regions\<close>

lemma before_last_None: "before_last c t = None \<longleftrightarrow> c \<notin> set t"
  by (induction t) (auto split: option.splits)

lemma before_last_Some:
  "before_last c t = Some g \<longleftrightarrow> (\<exists>post. t = g @ c # post \<and> c \<notin> set post)"
proof (induction t arbitrary: g)
  case Nil
  then show ?case by simp
next
  case (Cons x xs)
  show ?case
  proof (cases "before_last c xs")
    case None
    then have n: "c \<notin> set xs" by (simp add: before_last_None)
    show ?thesis
    proof
      assume "before_last c (x # xs) = Some g"
      with None have "x = c" "g = []" by (auto split: if_splits)
      with n show "\<exists>post. x # xs = g @ c # post \<and> c \<notin> set post" by simp
    next
      assume "\<exists>post. x # xs = g @ c # post \<and> c \<notin> set post"
      then obtain post where p: "x # xs = g @ c # post" "c \<notin> set post" by blast
      with n have "g = []" by (cases g) auto
      with p None show "before_last c (x # xs) = Some g" by simp
    qed
  next
    case (Some g')
    with Cons.IH[of g'] obtain post' where p': "xs = g' @ c # post'" "c \<notin> set post'" by auto
    show ?thesis
    proof
      assume "before_last c (x # xs) = Some g"
      with Some have "g = x # g'" by simp
      with p' show "\<exists>post. x # xs = g @ c # post \<and> c \<notin> set post" by simp
    next
      assume "\<exists>post. x # xs = g @ c # post \<and> c \<notin> set post"
      then obtain post where p: "x # xs = g @ c # post" "c \<notin> set post" by blast
      from p p' have "g \<noteq> []" by (cases g) auto
      then obtain g2 where g: "g = x # g2" using p by (cases g) auto
      with p have "xs = g2 @ c # post" by simp
      with p(2) Cons.IH[of g2] have "before_last c xs = Some g2" by blast
      with Some g show "before_last c (x # xs) = Some g" by simp
    qed
  qed
qed

lemma after_first_Some:
  "after_first l s = Some t \<longleftrightarrow>
     (\<exists>pre. s = pre @ l @ t \<and> (\<forall>pre' rest. s = pre' @ l @ rest \<longrightarrow> length pre \<le> length pre'))"
proof (induction s arbitrary: t)
  case Nil
  then show ?case by auto
next
  case (Cons x xs)
  show ?case
  proof (cases "take (length l) (x # xs) = l")
    case True
    then have eq: "x # xs = l @ drop (length l) (x # xs)" by (metis append_take_drop_id)
    show ?thesis
    proof
      assume "after_first l (x # xs) = Some t"
      with True have "t = drop (length l) (x # xs)" by simp
      with eq have "x # xs = [] @ l @ t" by simp
      then show "\<exists>pre. x # xs = pre @ l @ t \<and>
          (\<forall>pre' rest. x # xs = pre' @ l @ rest \<longrightarrow> length pre \<le> length pre')"
        by (intro exI[of _ "[]"]) simp
    next
      assume "\<exists>pre. x # xs = pre @ l @ t \<and>
          (\<forall>pre' rest. x # xs = pre' @ l @ rest \<longrightarrow> length pre \<le> length pre')"
      then obtain pre where p: "x # xs = pre @ l @ t"
        "\<forall>pre' rest. x # xs = pre' @ l @ rest \<longrightarrow> length pre \<le> length pre'" by blast
      from eq have "x # xs = [] @ l @ drop (length l) (x # xs)" by simp
      with p(2) have "length pre \<le> length ([]::string)" by blast
      then have "pre = []" by simp
      with p(1) eq have "t = drop (length l) (x # xs)" by (metis append_Nil append_eq_conv_conj)
      with True show "after_first l (x # xs) = Some t" by simp
    qed
  next
    case False
    then have af: "after_first l (x # xs) = after_first l xs" by simp
    have nopre: "\<And>rest. x # xs \<noteq> [] @ l @ rest"
      using False by (metis append_Nil append_eq_conv_conj)
    show ?thesis
    proof
      assume "after_first l (x # xs) = Some t"
      with af Cons.IH[of t] obtain pre where p: "xs = pre @ l @ t"
        "\<forall>pre' rest. xs = pre' @ l @ rest \<longrightarrow> length pre \<le> length pre'" by auto
      have "\<forall>pre' rest. x # xs = pre' @ l @ rest \<longrightarrow> length (x # pre) \<le> length pre'"
      proof (intro allI impI)
        fix pre' rest assume a: "x # xs = pre' @ l @ rest"
        with nopre obtain q where q: "pre' = x # q" by (cases pre') auto
        with a have "xs = q @ l @ rest" by simp
        with p(2) have "length pre \<le> length q" by blast
        with q show "length (x # pre) \<le> length pre'" by simp
      qed
      with p(1) show "\<exists>pre. x # xs = pre @ l @ t \<and>
          (\<forall>pre' rest. x # xs = pre' @ l @ rest \<longrightarrow> length pre \<le> length pre')"
        by (intro exI[of _ "x # pre"]) simp
    next
      assume "\<exists>pre. x # xs = pre @ l @ t \<and>
          (\<forall>pre' rest. x # xs = pre' @ l @ rest \<longrightarrow> length pre \<le> length pre')"
      then obtain pre where p: "x # xs = pre @ l @ t"
        "\<forall>pre' rest. x # xs = pre' @ l @ rest \<longrightarrow> length pre \<le> length pre'" by blast
      with nopre obtain q where q: "pre = x # q" by (cases pre) auto
      with p(1) have xs: "xs = q @ l @ t" by simp
      have "\<forall>pre' rest. xs = pre' @ l @ rest \<longrightarrow> length q \<le> length pre'"
      proof (intro allI impI)
        fix pre' rest assume "xs = pre' @ l @ rest"
        then have "x # xs = (x # pre') @ l @ rest" by simp
        with p(2) have "length pre \<le> length (x # pre')" by blast
        with q show "length q \<le> length pre'" by simp
      qed
      with xs Cons.IH[of t] af show "after_first l (x # xs) = Some t" by auto
    qed
  qed
qed

lemma after_first_suffix: "after_first l s = Some t \<Longrightarrow> \<exists>i. t = drop (i + length l) s"
proof (induction s)
  case Nil
  then show ?case by (auto split: if_splits)
next
  case (Cons x xs)
  show ?case
  proof (cases "take (length l) (x # xs) = l")
    case True
    with Cons.prems show ?thesis by (intro exI[of _ 0]) simp
  next
    case False
    with Cons obtain i where "t = drop (i + length l) xs" by auto
    then show ?thesis by (intro exI[of _ "Suc i"]) simp
  qed
qed

lemma greedy_any_before_last:
  assumes "CHR 0x0A \<notin> set u"
  shows "greedy AnyChar (match_here [Chr c]) 0 acc u =
           map_option (\<lambda>g. [rev acc @ g]) (before_last c u)"
  using assms
proof (induction u arbitrary: acc)
  case Nil
  then show ?case by simp
next
  case (Cons x xs)
  then show ?case by (cases "before_last c xs") (auto simp: Let_def)
qed

lemma match_here_region:
  assumes "CHR 0x0A \<notin> set t"
  shows "match_here (lit l @ [Group AnyChar 0, Chr c]) t =
     (if take (length l) t = l then map_option (\<lambda>g. [g]) (before_last c (drop (length l) t))
      else None)"
proof -
  from assms have "CHR 0x0A \<notin> set (drop (length l) t)" by (meson in_set_dropD)
  from greedy_any_before_last[OF this, of c "[]"] show ?thesis
    by (simp add: match_here_lit)
qed

lemma search_region:
  assumes "CHR 0x0A \<notin> set s"
  shows "search (lit l @ [Group AnyChar 0, Chr c]) s =
     (case after_first l s of
        None \<Rightarrow> None
      | Some t \<Rightarrow> map_option (\<lambda>g. [g]) (before_last c t))"
  using assms
proof (induction s)
  case Nil
  then show ?case using match_here_region[of "[]" l c] by simp
next
  case (Cons x xs)
  from Cons.prems have nl: "CHR 0x0A \<notin> set xs" by simp
  note IH = Cons.IH[OF nl]
  note m = match_here_region[OF Cons.prems, of l c]
  show ?case
  proof (cases "take (length l) (x # xs) = l")
    case False
    with m IH show ?thesis by simp
  next
    case True
    show ?thesis
    proof (cases "before_last c (drop (length l) (x # xs))")
      case (Some g)
      with True m show ?thesis by simp
    next
      case None
      then have nc: "c \<notin> set (drop (length l) (x # xs))" by (simp add: before_last_None)
      have "search (lit l @ [Group AnyChar 0, Chr c]) xs = None"
      proof (cases "after_first l xs")
        case None
        with IH show ?thesis by simp
      next
        case (Some t)
        from after_first_suffix[OF Some] obtain i where "t = drop (i + length l) xs" by blast
        then have "t = drop (Suc i) (drop (length l) (x # xs))" by (simp add: add.commute)
        then have "set t \<subseteq> set (drop (length l) (x # xs))" by (metis set_drop_subset)
        with nc have "c \<notin> set t" by blast
        then have "before_last c t = None" by (simp add: before_last_None)
        with IH Some show ?thesis by simp
      qed
      with True m None show ?thesis by simp
    qed
  qed
qed

lemma search_greedy_region:
  assumes "CHR 0x0A \<notin> set s"
  shows "search (lit mark @ [Group AnyChar 0, Chr (CHR '']'')]) s = Some gs
           \<longleftrightarrow> greedy_region mark s gs"
proof
  assume "search (lit mark @ [Group AnyChar 0, Chr (CHR '']'')]) s = Some gs"
  with search_region[OF assms, of mark "CHR '']''"]
  have "(case after_first mark s of None \<Rightarrow> None
         | Some t \<Rightarrow> map_option (\<lambda>g. [g]) (before_last (CHR '']'') t)) = Some gs"
    by simp
  then obtain t g where t: "after_first mark s = Some t" "before_last (CHR '']'') t = Some g" "gs = [g]"
    by (cases "after_first mark s") auto
  from t(1) obtain pre where pre: "s = pre @ mark @ t"
    "\<forall>pre' rest. s = pre' @ mark @ rest \<longrightarrow> length pre \<le> length pre'"
    unfolding after_first_Some by blast
  from t(2) obtain post where post: "t = g @ CHR '']'' # post" "CHR '']'' \<notin> set post"
    unfolding before_last_Some by blast
  show "greedy_region mark s gs"
    unfolding greedy_region_def
    apply (rule exI[of _ pre], rule exI[of _ g], rule exI[of _ post])
    using pre post t(3) by simp
next
  assume "greedy_region mark s gs"
  then obtain pre g post where d: "gs = [g]" "s = pre @ mark @ g @ '']'' @ post"
    "CHR '']'' \<notin> set post"
    "\<forall>pre' rest. s = pre' @ mark @ rest \<longrightarrow> length pre \<le> length pre'"
    unfolding greedy_region_def by blast
  have "after_first mark s = Some (g @ '']'' @ post)"
    unfolding after_first_Some using d(2,4) by blast
  moreover have "before_last (CHR '']'') (g @ '']'' @ post) = Some g"
    unfolding before_last_Some using d(3) by simp
  ultimately show "search (lit mark @ [Group AnyChar 0, Chr (CHR '']'')]) s = Some gs"
    using search_region[OF assms, of mark "CHR '']''"] d(1) by simp
qed

lemma single_line_no_newline: "CHR 0x0A \<notin> set (single_line script)"
  by (simp add: single_line_def remove_char_def)

lemma split_pieces: "p \<in> set (split sep s) \<Longrightarrow> set p \<subseteq> set s"
proof (induction sep s arbitrary: p rule: split.induct)
  case (1 sep)
  then show ?case by simp
next
  case (2 sep x xs)
  show ?case
  proof (cases "sep \<noteq> [] \<and> take (length sep) (x # xs) = sep")
    case True
    with "2.prems" have "p = [] \<or> p \<in> set (split sep (drop (length sep) (x # xs)))" by auto
    then show ?thesis
    proof
      assume "p = []" then show ?thesis by simp
    next
      assume "p \<in> set (split sep (drop (length sep) (x # xs)))"
      from "2.IH"(1)[OF True this] have "set p \<subseteq> set (drop (length sep) (x # xs))" .
      also have "\<dots> \<subseteq> set (x # xs)" by (rule set_drop_subset)
      finally show ?thesis .
    qed
  next
    case False
    show ?thesis
    proof (cases "split sep xs")
      case Nil
      with False "2.prems" show ?thesis by auto
    next
      case (Cons q qs)
      with False "2.prems" have "p = x # q \<or> p \<in> set qs" by auto
      then show ?thesis
      proof
        assume "p = x # q"
        moreover from "2.IH"(2)[OF False, of q] Cons have "set q \<subseteq> set xs" by simp
        ultimately show ?thesis by auto
      next
        assume "p \<in> set qs"
        with "2.IH"(2)[OF False, of p] Cons show ?thesis by auto
      qed
    qed
  qed
qed

lemma fragments_no_newline:
  assumes "search series_pattern (single_line script) = Some gs"
    and "grp \<in> set (raw_groups (gs ! 0))"
  shows "CHR 0x0A \<notin> set grp"
proof -
  from assms(1) have "greedy_region ''series:['' (single_line script) gs"
    using search_greedy_region[OF single_line_no_newline, of "''series:[''" script gs]
    unfolding series_pattern_def by blast
  then obtain pre g post where g: "gs = [g]"
    "single_line script = pre @ ''series:['' @ g @ '']'' @ post"
    unfolding greedy_region_def by blast
  have "set g \<subseteq> set (single_line script)" by (subst g(2)) auto
  with single_line_no_newline have "CHR 0x0A \<notin> set g" by blast
  then have "CHR 0x0A \<notin> set (remove_char (CHR ''{'') g)" by (simp add: remove_char_def)
  with split_pieces[of grp "''},''" "remove_char (CHR ''{'') g"] assms(2) g(1)
  show ?thesis by (auto simp: raw_groups_def)
qed

text \<open>
  C6. On the single line made of a script, the series pattern matches exactly when the
  line has an occurrence of \<^verbatim>\<open>series:[\<close> with a closing bracket somewhere after it, and
  the captured region then runs from the first occurrence of \<^verbatim>\<open>series:[\<close> to the last
  closing bracket of the line: the longest such text, not the one ending at the first
  closing bracket. The same holds for \<^verbatim>\<open>data:[\<close> in a fragment, which has no newline
  since it is cut out of the single line (\<open>fragments_no_newline\<close>).
\<close>

theorem greedy_regions:
  "(search series_pattern (single_line script) = Some gs
      \<longleftrightarrow> greedy_region ''series:['' (single_line script) gs) \<and>
   (CHR 0x0A \<notin> set fragment \<longrightarrow>
      (search data_pattern fragment = Some gs' \<longleftrightarrow> greedy_region ''data:['' fragment gs'))"
  using search_greedy_region[OF single_line_no_newline, of "''series:[''" script gs]
    search_greedy_region[of fragment "''data:[''" gs']
  unfolding series_pattern_def data_pattern_def by blast

theorem greedy_regions_witness:
  "search series_pattern
     (single_line ''series: [{name:'2021', data:[[Date.UTC(2021,0,15),42]]}], other: [1]'')
     = Some [''{name:'2021',data:[[Date.UTC(2021,0,15),42]]}],other:[1''] \<and>
   greedy_region ''series:[''
     (single_line ''series: [{name:'2021', data:[[Date.UTC(2021,0,15),42]]}], other: [1]'')
     [''{name:'2021',data:[[Date.UTC(2021,0,15),42]]}],other:[1''] \<and>
   CHR 0x0A \<notin> set ''name:'2021',data:[[Date.UTC(2021,0,15),42],[Date.UTC(2021,0,16),7]]'' \<and>
   search data_pattern ''name:'2021',data:[[Date.UTC(2021,0,15),42],[Date.UTC(2021,0,16),7]]''
     = Some [''[Date.UTC(2021,0,15),42],[Date.UTC(2021,0,16),7]''] \<and>
   greedy_region ''data:[''
     ''name:'2021',data:[[Date.UTC(2021,0,15),42],[Date.UTC(2021,0,16),7]]''
     [''[Date.UTC(2021,0,15),42],[Date.UTC(2021,0,16),7]'']"
proof -
  have h1: "search series_pattern
     (single_line ''series: [{name:'2021', data:[[Date.UTC(2021,0,15),42]]}], other: [1]'')
     = Some [''{name:'2021',data:[[Date.UTC(2021,0,15),42]]}],other:[1'']"
    by code_simp
  have h2: "CHR 0x0A \<notin> set ''name:'2021',data:[[Date.UTC(2021,0,15),42],[Date.UTC(2021,0,16),7]]''"
    by simp
  have h3: "search data_pattern
      ''name:'2021',data:[[Date.UTC(2021,0,15),42],[Date.UTC(2021,0,16),7]]''
     = Some [''[Date.UTC(2021,0,15),42],[Date.UTC(2021,0,16),7]'']"
    by code_simp
  note c = greedy_regions[of
      "''series: [{name:'2021', data:[[Date.UTC(2021,0,15),42]]}], other: [1]''"
      "[''{name:'2021',data:[[Date.UTC(2021,0,15),42]]}],other:[1'']"
      "''name:'2021',data:[[Date.UTC(2021,0,15),42],[Date.UTC(2021,0,16),7]]''"
      "[''[Date.UTC(2021,0,15),42],[Date.UTC(2021,0,16),7]'']"]
  from c h1 have r1: "greedy_region ''series:[''
     (single_line ''series: [{name:'2021', data:[[Date.UTC(2021,0,15),42]]}], other: [1]'')
     [''{name:'2021',data:[[Date.UTC(2021,0,15),42]]}],other:[1'']" by blast
  from c h2 h3 have r2: "greedy_region ''data:[''
     ''name:'2021',data:[[Date.UTC(2021,0,15),42],[Date.UTC(2021,0,16),7]]''
     [''[Date.UTC(2021,0,15),42],[Date.UTC(2021,0,16),7]'']" by blast
  show ?thesis
    by (rule conjI[OF h1], rule conjI[OF r1], rule conjI[OF h2], rule conjI[OF h3], rule r2)
qed

section \<open>The writer\<close>

lemma digit_char_digit: "n < 10 \<Longrightarrow> is_digit (digit_char n)"
proof -
  assume "n < 10"
  then have "n \<in> {0, 1, 2, 3, 4, 5, 6, 7, 8, 9}" by auto
  then show ?thesis by (auto simp: digit_char_def is_digit_def)
qed

lemma str_nat_digits: "str_nat n \<noteq> [] \<and> list_all is_digit (str_nat n)"
proof (induction n rule: str_nat.induct)
  case (1 n)
  show ?case
  proof (cases "n < 10")
    case True
    then show ?thesis by (subst str_nat.simps, subst (2) str_nat.simps) (simp add: digit_char_digit)
  next
    case False
    with 1 have "list_all is_digit (str_nat (n div 10))" by simp
    moreover have "is_digit (digit_char (n mod 10))" by (simp add: digit_char_digit)
    ultimately show ?thesis using False
      by (subst str_nat.simps, subst (2) str_nat.simps) simp
  qed
qed

lemma str_int_plain: "str_int i \<noteq> [] \<and> list_all plain (str_int i) \<and> is_digit (last (str_int i))"
proof -
  have a: "\<And>n. list_all plain (str_nat n)"
    using str_nat_digits by (auto simp: list_all_iff plain_def)
  have b: "\<And>n. is_digit (last (str_nat n))"
    using str_nat_digits by (metis last_in_set list_all_iff)
  show ?thesis using a b str_nat_digits by (auto simp: str_int_def plain_def)
qed

lemma plain_zero: "plain (CHR ''0'')"
  by (simp add: plain_def is_digit_def)

lemma plain_minus: "plain (CHR ''-'')"
  by (simp add: plain_def)

lemma zfill_plain:
  assumes "s \<noteq> []" "list_all plain s" "is_digit (last s)"
  shows "zfill w s \<noteq> [] \<and> list_all plain (zfill w s) \<and> is_digit (last (zfill w s))"
  using assms by (auto simp: zfill_def list_all_iff plain_zero)

lemma str_date_plain:
  "str_date d \<noteq> [] \<and> list_all plain (str_date d) \<and> is_digit (last (str_date d))"
proof -
  note y = zfill_plain[OF str_int_plain[of "date_year d", THEN conjunct1]
      str_int_plain[of "date_year d", THEN conjunct2, THEN conjunct1]
      str_int_plain[of "date_year d", THEN conjunct2, THEN conjunct2], of 4]
  note m = zfill_plain[OF str_int_plain[of "date_month d", THEN conjunct1]
      str_int_plain[of "date_month d", THEN conjunct2, THEN conjunct1]
      str_int_plain[of "date_month d", THEN conjunct2, THEN conjunct2], of 2]
  note dd = zfill_plain[OF str_int_plain[of "date_day d", THEN conjunct1]
      str_int_plain[of "date_day d", THEN conjunct2, THEN conjunct1]
      str_int_plain[of "date_day d", THEN conjunct2, THEN conjunct2], of 2]
  show ?thesis using y m dd by (simp add: str_date_def plain_minus)
qed

lemma join_plain:
  assumes "\<forall>x\<in>set xs. x \<noteq> [] \<and> list_all plain x \<and> is_digit (last x)"
  shows "list_all (\<lambda>c. plain c \<or> c = CHR '','') (join '','' xs) \<and>
         (xs \<noteq> [] \<longrightarrow> join '','' xs \<noteq> [] \<and> is_digit (last (join '','' xs)))"
  using assms
proof (induction "'',''" xs rule: join.induct)
  case 1
  then show ?case by simp
next
  case (2 x)
  then show ?case by (auto simp: list_all_iff)
next
  case (3 x y r)
  then show ?case by (auto simp: list_all_iff)
qed

lemma plain_not_newline: "plain c \<or> c = CHR '','' \<Longrightarrow> c \<noteq> CHR 0x0A"
  by (auto simp: plain_def is_digit_def)

lemma is_digit_not_comma: "is_digit c \<Longrightarrow> c \<noteq> CHR '',''"
  by (auto simp: is_digit_def)

lemma lines_from_line:
  "CHR 0x0A \<notin> set l \<Longrightarrow> lines_from cur (l @ CHR 0x0A # rest) = (rev cur @ l) # lines_from [] rest"
  by (induction l arbitrary: cur) auto

lemma text_lines_two:
  assumes "CHR 0x0A \<notin> set l1" "CHR 0x0A \<notin> set l2"
  shows "text_lines (l1 @ [CHR 0x0A] @ l2 @ [CHR 0x0A]) = [l1, l2]"
proof -
  have "lines_from [] (l1 @ CHR 0x0A # (l2 @ CHR 0x0A # [])) = [l1, l2]"
    by (simp only: lines_from_line[OF assms(1)] lines_from_line[OF assms(2)]) simp
  then show ?thesis by (simp add: text_lines_def)
qed

lemma dates_line:
  "list_all (\<lambda>c. plain c \<or> c = CHR '','') (list_to_string str_date ds) \<and>
   (ds \<noteq> [] \<longrightarrow> list_to_string str_date ds \<noteq> [] \<and> is_digit (last (list_to_string str_date ds)))"
  unfolding list_to_string_def
  using join_plain[of "map str_date ds"] str_date_plain by auto

lemma counts_line:
  "list_all (\<lambda>c. plain c \<or> c = CHR '','') (list_to_string str_int cs) \<and>
   (cs \<noteq> [] \<longrightarrow> list_to_string str_int cs \<noteq> [] \<and> is_digit (last (list_to_string str_int cs)))"
  unfolding list_to_string_def
  using join_plain[of "map str_int cs"] str_int_plain by auto

lemma plain_not_comma: "plain c \<Longrightarrow> c \<noteq> CHR '',''"
  by (auto simp: plain_def is_digit_def)

text \<open>Cutting a line at its commas gives back the strings that were joined.\<close>

lemma split_not_Nil: "split sep s \<noteq> []"
  by (induction sep s rule: split.induct) (auto split: list.splits)

lemma split_piece:
  "c \<notin> set x \<Longrightarrow> split [c] (x @ rest) = (x @ hd (split [c] rest)) # tl (split [c] rest)"
proof (induction x)
  case Nil
  then show ?case using split_not_Nil[of "[c]" rest] by simp
next
  case (Cons a x)
  then show ?case by (auto split: list.splits)
qed

lemma split_join:
  "xs \<noteq> [] \<Longrightarrow> \<forall>x\<in>set xs. c \<notin> set x \<Longrightarrow> split [c] (join [c] xs) = xs"
proof (induction "[c]" xs rule: join.induct)
  case 1
  then show ?case by simp
next
  case (2 x)
  then show ?case using split_piece[of c x "[]"] by simp
next
  case (3 x y r)
  then have "split [c] (join [c] (y # r)) = y # r" by simp
  moreover from 3 have "c \<notin> set x" by simp
  ultimately show ?case using split_piece[of c x "c # join [c] (y # r)"] by simp
qed

lemma store_ok:
  "os_makedirs os (dirname file_name) fs = None \<Longrightarrow> os_open os file_name fs = None \<Longrightarrow>
     store_salmon_statistics os statistics file_name fs
       = (fs(file_name \<mapsto> file_text statistics), None)"
  by (simp add: store_salmon_statistics_def file_text_def Let_def)

lemma store_returns:
  "store_salmon_statistics os statistics file_name fs = (fs', None) \<Longrightarrow>
     fs' = fs(file_name \<mapsto> file_text statistics) \<and>
     os_makedirs os (dirname file_name) fs = None \<and> os_open os file_name fs = None"
  by (auto simp: store_salmon_statistics_def file_text_def Let_def split: option.splits)

lemma store_raises:
  "store_salmon_statistics os statistics file_name fs = (fs', Some x) \<Longrightarrow> fs' = fs"
  by (auto simp: store_salmon_statistics_def Let_def split: option.splits)

text \<open>
  What the writer does when it returns. For a series with dates and counts, the file
  holds two lines, each ended by a newline and neither with a newline inside; cut at its
  commas, the first is the string forms of the dates and the second the decimal forms of
  the counts, and neither line ends in a comma.
\<close>

lemma writer_two_lines:
  assumes "store_salmon_statistics os statistics file_name fs = (fs', None)"
    and "dates statistics \<noteq> []" and "counts statistics \<noteq> []"
  shows "\<exists>line1 line2.
           fs' file_name = Some (line1 @ [CHR 0x0A] @ line2 @ [CHR 0x0A]) \<and>
           text_lines (line1 @ [CHR 0x0A] @ line2 @ [CHR 0x0A]) = [line1, line2] \<and>
           split '','' line1 = map str_date (dates statistics) \<and>
           split '','' line2 = map str_int (counts statistics) \<and>
           last line1 \<noteq> CHR '','' \<and> last line2 \<noteq> CHR '',''"
proof -
  let ?l1 = "list_to_string str_date (dates statistics)"
  let ?l2 = "list_to_string str_int (counts statistics)"
  have n1: "CHR 0x0A \<notin> set ?l1"
    using dates_line[of "dates statistics"] plain_not_newline by (auto simp: list_all_iff)
  have n2: "CHR 0x0A \<notin> set ?l2"
    using counts_line[of "counts statistics"] plain_not_newline by (auto simp: list_all_iff)
  have s1: "split '','' ?l1 = map str_date (dates statistics)"
    unfolding list_to_string_def
    using split_join[of "map str_date (dates statistics)" "CHR '',''"] assms(2)
      str_date_plain plain_not_comma by (auto simp: list_all_iff)
  have s2: "split '','' ?l2 = map str_int (counts statistics)"
    unfolding list_to_string_def
    using split_join[of "map str_int (counts statistics)" "CHR '',''"] assms(3)
      str_int_plain plain_not_comma by (auto simp: list_all_iff)
  have e1: "last ?l1 \<noteq> CHR '',''"
    using dates_line[of "dates statistics"] assms(2) is_digit_not_comma by auto
  have e2: "last ?l2 \<noteq> CHR '',''"
    using counts_line[of "counts statistics"] assms(3) is_digit_not_comma by auto
  from store_returns[OF assms(1)]
  have f: "fs' file_name = Some (?l1 @ [CHR 0x0A] @ ?l2 @ [CHR 0x0A])"
    by (simp add: file_text_def)
  show ?thesis
    apply (rule exI[of _ ?l1], rule exI[of _ ?l2])
    using f text_lines_two[OF n1 n2] s1 s2 e1 e2 by simp
qed

lemma writer_example:
  "fst (store_salmon_statistics
          \<lparr>makedirs_error = \<lambda>name fs. None, open_error = \<lambda>name fs. None\<rparr>
          \<lparr>dates = [Date 2021 1 15, Date 2021 1 16], counts = [42, 7]\<rparr> ''X/riverY2021.txt''
          Map.empty) ''X/riverY2021.txt''
   = Some (''2021-01-15,2021-01-16'' @ [CHR 0x0A] @ ''42,7'' @ [CHR 0x0A]) \<and>
   text_lines (''2021-01-15,2021-01-16'' @ [CHR 0x0A] @ ''42,7'' @ [CHR 0x0A])
   = [''2021-01-15,2021-01-16'', ''42,7'']"
  by code_simp

text \<open>
  C7 fails on the program. For a file name with no directory part, as
  \<open>riverY2021.txt\<close>, \<open>os.path.dirname\<close> gives the empty string and \<open>os.makedirs\<close>
  raises \<open>FileNotFoundError\<close> before the file is opened: whatever the operating system
  and the file system, the writer produces no file, and \<open>main\<close>, which passes such a
  name when the output directory is \<open>.\<close> (\<open>str(Path('.') / name)\<close> is \<open>name\<close>), is
  left by the exception at the first series it has to write.
\<close>

theorem bare_file_name_fails:
  "store_salmon_statistics os \<lparr>dates = [Date 2021 1 15], counts = [42]\<rparr> ''riverY2021.txt'' fs
     = (fs, Some FileNotFoundError) \<and>
   main_years os (\<lambda>name. name) ''riverY''
     [(''2021'', \<lparr>dates = [Date 2021 1 15], counts = [42]\<rparr>)] fs out
     = ((fs, out), Some FileNotFoundError)"
proof -
  have d: "dirname ''riverY2021.txt'' = []"
    by code_simp
  have s: "store_salmon_statistics os \<lparr>dates = [Date 2021 1 15], counts = [42]\<rparr>
      ''riverY2021.txt'' fs = (fs, Some FileNotFoundError)"
    by (simp add: store_salmon_statistics_def os_makedirs_def d)
  then show ?thesis by simp
qed

text \<open>
  When the operating system lets the writer make the directory and open the file, calling
  the writer any number of times, at least once, is calling it once, and the content of
  the file depends neither on what the file held before nor on the number of calls.
\<close>

lemma store_times_fixed:
  assumes "\<forall>fs. os_makedirs os (dirname file_name) fs = None \<and> os_open os file_name fs = None"
    and "g file_name = Some (file_text statistics)"
  shows "store_times n os statistics file_name g = (g, None)"
proof -
  from assms(2) have "g(file_name \<mapsto> file_text statistics) = g" by (rule map_upd_triv)
  then show ?thesis using assms(1) by (induction n) (simp_all add: store_ok)
qed

lemma store_times_once:
  assumes "\<forall>fs. os_makedirs os (dirname file_name) fs = None \<and> os_open os file_name fs = None"
    and "0 < n"
  shows "store_times n os statistics file_name fs
           = (fs(file_name \<mapsto> file_text statistics), None)"
proof -
  from assms(2) obtain k where "n = Suc k" by (cases n) auto
  then show ?thesis
    using assms(1) by (simp add: store_ok store_times_fixed[OF assms(1)])
qed

lemma writer_idempotent:
  assumes "\<forall>fs. os_makedirs os (dirname file_name) fs = None \<and> os_open os file_name fs = None"
    and "0 < n" and "0 < m"
  shows "store_times n os statistics file_name fs
           = store_salmon_statistics os statistics file_name fs \<and>
         fst (store_times n os statistics file_name fs) file_name
           = Some (file_text statistics) \<and>
         fst (store_times m os statistics file_name fs0) file_name
           = fst (store_times n os statistics file_name fs) file_name"
  using assms(1)
  by (simp add: store_times_once[OF assms(1,2)] store_times_once[OF assms(1,3)] store_ok)

text \<open>
  C9 fails on the program, by the defect that makes C7 fail. For a file name with no
  directory part every call of the writer raises \<open>FileNotFoundError\<close> before the file is
  opened, so after any number of calls the file system is the one found: a file of this
  name keeps what it held before, \<open>old\<close> here, and does not get the text of the series.
\<close>

theorem bare_file_name_keeps_content:
  "store_times (Suc n) os statistics ''riverY2021.txt'' fs = (fs, Some FileNotFoundError) \<and>
   fst (store_times (Suc n) os statistics ''riverY2021.txt'' [''riverY2021.txt'' \<mapsto> ''old''])
     ''riverY2021.txt'' = Some ''old''"
proof -
  have d: "dirname ''riverY2021.txt'' = []"
    by code_simp
  have s: "\<And>fs. store_salmon_statistics os statistics ''riverY2021.txt'' fs
      = (fs, Some FileNotFoundError)"
    by (simp add: store_salmon_statistics_def os_makedirs_def d)
  then show ?thesis by simp
qed

section \<open>The loops of \<open>main\<close>\<close>

lemma store_other:
  "store_salmon_statistics os statistics file_name fs = (fs', r) \<Longrightarrow> q \<noteq> file_name \<Longrightarrow>
     fs' q = fs q"
  by (auto simp: store_salmon_statistics_def Let_def split: option.splits)

lemma main_years_empty:
  "empty_series data \<Longrightarrow>
     main_years os path river ((year, data) # rest) fs out =
     main_years os path river rest fs (out @ [warning river year])"
  by (auto simp: empty_series_def)

lemma main_years_store:
  "\<not> empty_series data \<Longrightarrow>
     store_salmon_statistics os data (path (river @ year @ ''.txt'')) fs = (f, e) \<Longrightarrow>
     main_years os path river ((year, data) # rest) fs out =
       (case e of Some x \<Rightarrow> ((f, out), Some x) | None \<Rightarrow> main_years os path river rest f out)"
  by (cases e) (simp_all add: empty_series_def)

lemma written_paths_Cons:
  "written_paths path river ((year, data) # rest) =
     (if empty_series data then {} else {path (river @ year @ ''.txt'')}) \<union>
     written_paths path river rest"
  by (auto simp: written_paths_def)

lemma warnings_of_Cons:
  "warnings_of river ((year, data) # rest) =
     (if empty_series data then [warning river year] else []) @ warnings_of river rest"
  by (simp add: warnings_of_def)

lemma main_years_effect:
  "main_years os path river years fs out = ((fs', out'), r) \<Longrightarrow>
     (\<forall>q. q \<notin> written_paths path river years \<longrightarrow> fs' q = fs q) \<and>
     (r = None \<longrightarrow> out' = out @ warnings_of river years)"
proof (induction years arbitrary: fs out)
  case Nil
  then show ?case by (simp add: warnings_of_def)
next
  case (Cons yd rest)
  obtain year data where yd: "yd = (year, data)" by (cases yd)
  show ?case
  proof (cases "empty_series data")
    case True
    from Cons.prems have "main_years os path river rest fs (out @ [warning river year])
        = ((fs', out'), r)"
      unfolding yd main_years_empty[OF True] .
    from Cons.IH[OF this] show ?thesis
      unfolding yd written_paths_Cons warnings_of_Cons using True by simp
  next
    case False
    obtain f e where st:
      "store_salmon_statistics os data (path (river @ year @ ''.txt'')) fs = (f, e)"
      by (cases "store_salmon_statistics os data (path (river @ year @ ''.txt'')) fs")
    have other: "\<And>q. q \<noteq> path (river @ year @ ''.txt'') \<Longrightarrow> f q = fs q"
      by (rule store_other[OF st])
    from Cons.prems have m: "(case e of Some x \<Rightarrow> ((f, out), Some x)
        | None \<Rightarrow> main_years os path river rest f out) = ((fs', out'), r)"
      unfolding yd main_years_store[where path=path and river=river and year=year, OF False st] .
    show ?thesis
    proof (cases e)
      case (Some x)
      with m have "fs' = f" "out' = out" "r = Some x" by simp_all
      with other show ?thesis
        unfolding yd written_paths_Cons warnings_of_Cons using False by simp
    next
      case None
      with m have "main_years os path river rest f out = ((fs', out'), r)" by simp
      from Cons.IH[OF this] other show ?thesis
        unfolding yd written_paths_Cons warnings_of_Cons using False by simp
    qed
  qed
qed

lemma main_rivers_effect:
  "main_rivers os path statistics fs out = ((fs', out'), r) \<Longrightarrow>
     (\<forall>q. q \<notin> (\<Union>(river, years)\<in>set statistics. written_paths path river years)
          \<longrightarrow> fs' q = fs q) \<and>
     (r = None \<longrightarrow>
        out' = out @ concat (map (\<lambda>(river, years). warnings_of river years) statistics))"
proof (induction statistics arbitrary: fs out)
  case Nil
  then show ?case by simp
next
  case (Cons ry rest)
  obtain river years where ry: "ry = (river, years)" by (cases ry)
  obtain f1 o1 r1 where m: "main_years os path river years fs out = ((f1, o1), r1)"
    by (metis prod.exhaust)
  note e = main_years_effect[OF m]
  show ?case
  proof (cases r1)
    case (Some x)
    with Cons.prems ry m have "fs' = f1" "out' = o1" "r = Some x" by auto
    with e ry show ?thesis by auto
  next
    case None
    with Cons.prems ry m have "main_rivers os path rest f1 o1 = ((fs', out'), r)" by simp
    from Cons.IH[OF this] e None ry show ?thesis by auto
  qed
qed

text \<open>
  C8. For a series whose dates or counts are empty, \<open>main\<close> leaves the file system as
  it is, prints the warning with the river and the year, and goes on with the next series.
  Over a whole run that ends without an exception, the output is the warnings of the
  empty series, in order, and every path that is not the path of a non-empty series holds
  what it held before: no file is made for an empty series.
\<close>

theorem empty_series_warned:
  "(dates data = [] \<or> counts data = [] \<longrightarrow>
      main_years os path river ((year, data) # rest) fs out =
      main_years os path river rest fs
        (out @ [''WARNING: No statistics available for river '' @ river @ '', year '' @ year])) \<and>
   (main_rivers os path statistics fs out = ((fs', out'), None) \<longrightarrow>
      out' = out @ concat (map (\<lambda>(river, years). warnings_of river years) statistics) \<and>
      (\<forall>q. q \<notin> (\<Union>(river, years)\<in>set statistics. written_paths path river years)
           \<longrightarrow> fs' q = fs q))"
  using main_rivers_effect[of os path statistics fs out fs' out' None]
  by (auto simp: warning_def)

theorem empty_series_warned_witness:
  "main_years \<lparr>makedirs_error = \<lambda>name fs. None, open_error = \<lambda>name fs. None\<rparr>
     (\<lambda>name. ''out/'' @ name) ''ricklean''
     ((''2020'', \<lparr>dates = [], counts = []\<rparr>) #
      [(''2021'', \<lparr>dates = [Date 2021 1 15], counts = [42]\<rparr>)]) Map.empty []
   = main_years \<lparr>makedirs_error = \<lambda>name fs. None, open_error = \<lambda>name fs. None\<rparr>
       (\<lambda>name. ''out/'' @ name) ''ricklean''
       [(''2021'', \<lparr>dates = [Date 2021 1 15], counts = [42]\<rparr>)] Map.empty
       ([] @ [''WARNING: No statistics available for river '' @ ''ricklean'' @ '', year '' @ ''2020'']) \<and>
   main_rivers \<lparr>makedirs_error = \<lambda>name fs. None, open_error = \<lambda>name fs. None\<rparr>
     (\<lambda>name. ''out/'' @ name)
     [(''ricklean'', [(''2020'', \<lparr>dates = [], counts = []\<rparr>),
                      (''2021'', \<lparr>dates = [Date 2021 1 15], counts = [42]\<rparr>)])] Map.empty []
   = ((Map.empty(''out/ricklean2021.txt'' \<mapsto>
         file_text \<lparr>dates = [Date 2021 1 15], counts = [42]\<rparr>),
       [''WARNING: No statistics available for river ricklean, year 2020'']), None) \<and>
   ''out/ricklean2020.txt'' \<notin>
     (\<Union>(river, years)\<in>set [(''ricklean'', [(''2020'', \<lparr>dates = [], counts = []\<rparr>),
                      (''2021'', \<lparr>dates = [Date 2021 1 15], counts = [42]\<rparr>)])].
        written_paths (\<lambda>name. ''out/'' @ name) river years) \<and>
   (Map.empty(''out/ricklean2021.txt'' \<mapsto>
         file_text \<lparr>dates = [Date 2021 1 15], counts = [42]\<rparr>)) ''out/ricklean2020.txt''
     = Map.empty ''out/ricklean2020.txt''"
proof -
  have h1: "dates \<lparr>dates = [], counts = []\<rparr> = [] \<or> counts \<lparr>dates = [], counts = []\<rparr> = []"
    by simp
  have dn: "dirname ''out/ricklean2021.txt'' = ''out''"
    by code_simp
  have bn: "basename ''out/ricklean2021.txt'' = ''ricklean2021.txt''"
    by code_simp
  have h2: "main_rivers \<lparr>makedirs_error = \<lambda>name fs. None, open_error = \<lambda>name fs. None\<rparr>
     (\<lambda>name. ''out/'' @ name)
     [(''ricklean'', [(''2020'', \<lparr>dates = [], counts = []\<rparr>),
                      (''2021'', \<lparr>dates = [Date 2021 1 15], counts = [42]\<rparr>)])] Map.empty []
   = ((Map.empty(''out/ricklean2021.txt'' \<mapsto>
         file_text \<lparr>dates = [Date 2021 1 15], counts = [42]\<rparr>),
       [''WARNING: No statistics available for river ricklean, year 2020'']), None)"
    by (simp add: store_ok os_makedirs_def os_open_def dn bn warning_def)
  have h3: "''out/ricklean2020.txt'' \<notin>
     (\<Union>(river, years)\<in>set [(''ricklean'', [(''2020'', \<lparr>dates = [], counts = []\<rparr>),
                      (''2021'', \<lparr>dates = [Date 2021 1 15], counts = [42]\<rparr>)])].
        written_paths (\<lambda>name. ''out/'' @ name) river years)"
    by (simp add: written_paths_def empty_series_def)
  note c = empty_series_warned[of "\<lparr>dates = [], counts = []\<rparr>"
      "\<lparr>makedirs_error = \<lambda>name fs. None, open_error = \<lambda>name fs. None\<rparr>"
      "\<lambda>name. ''out/'' @ name"
      "''ricklean''" "''2020''" "[(''2021'', \<lparr>dates = [Date 2021 1 15], counts = [42]\<rparr>)]"
      Map.empty "[]"
      "[(''ricklean'', [(''2020'', \<lparr>dates = [], counts = []\<rparr>),
                      (''2021'', \<lparr>dates = [Date 2021 1 15], counts = [42]\<rparr>)])]"
      "Map.empty(''out/ricklean2021.txt'' \<mapsto>
         file_text \<lparr>dates = [Date 2021 1 15], counts = [42]\<rparr>)"
      "[''WARNING: No statistics available for river ricklean, year 2020'']"]
  note s1 = c[THEN conjunct1, THEN mp, OF h1]
  note s2 = c[THEN conjunct2, THEN mp, OF h2, THEN conjunct2, THEN spec, THEN mp, OF h3]
  show ?thesis
    by (rule conjI[OF s1], rule conjI[OF h2], rule conjI[OF h3], rule s2)
qed

end
